theory Spec2Isabelle
  imports Main "HOL-Library.Word"
begin

section \<open>RFID puzzle system: data model\<close>

text \<open>
  The sketch \<^verbatim>\<open>rfid_puzzle_final.ino\<close> runs on an AVR board: \<^verbatim>\<open>byte\<close> is 8 bits,
  \<^verbatim>\<open>unsigned long\<close> is 32 bits and wraps around. The \<^verbatim>\<open>int\<close> globals
  (\<^verbatim>\<open>codeLength\<close>, \<^verbatim>\<open>currentIndex\<close>, \<^verbatim>\<open>selectedValue\<close>, the array cells) are
  modelled as \<open>int\<close>: the index and the length are shown below to stay within
  \<open>0..MAX_CARDS\<close>, the selected value is kept in 0..9 by the code, and the array cells
  only ever receive byte values, all far from the 16-bit range.
\<close>

type_synonym byte = "8 word"
type_synonym ulong = "32 word"

datatype Mode = PUZZLE | PROGRAM | SET_COMBO

text \<open>The status codes of the reader library; the sketch tests only two of them.\<close>

datatype StatusCode =
    STATUS_OK | STATUS_ERROR | STATUS_COLLISION | STATUS_TIMEOUT | STATUS_NO_ROOM
  | STATUS_INTERNAL_ERROR | STATUS_INVALID | STATUS_CRC_WRONG | STATUS_MIFARE_NACK

text \<open>The \<^verbatim>\<open>rfid.uid\<close> structure: the identifier bytes and their count.\<close>

record uid =
  uidByte :: "byte list"
  uid_size :: byte

text \<open>
  What the reader answers during one attempt of \<^verbatim>\<open>readCard\<close> or \<^verbatim>\<open>writeCard\<close>:
  the time that \<^verbatim>\<open>PCD_Authenticate\<close> took (\<^verbatim>\<open>millis() - authStart\<close>), its status, the
  same for the data operation, and \<^verbatim>\<open>buffer[0]\<close> after a read.
\<close>

record xfer =
  auth_elapsed :: ulong
  auth_status :: StatusCode
  op_elapsed :: ulong
  op_status :: StatusCode
  buffer0 :: byte

text \<open>
  The hardware as seen during one pass of \<^verbatim>\<open>loop()\<close>: the button level and the clock
  read by \<^verbatim>\<open>checkButtonPress\<close>, the button level read by \<^verbatim>\<open>programmingLoop\<close>, the
  clock read by \<^verbatim>\<open>handleReader\<close>, the outcome of
  \<^verbatim>\<open>PICC_IsNewCardPresent() && PICC_ReadCardSerial()\<close> (the identifier when both
  succeed) and the reader's answers to the attempts 0, 1, 2 of a transfer.
\<close>

record tick_input =
  button_low :: bool
  button_millis :: ulong
  program_button_low :: bool
  reader_millis :: ulong
  card :: "uid option"
  rfid :: "nat \<Rightarrow> xfer"

text \<open>
  The calls that the functions below make to the light strip, the buzzer, the relay and
  \<^verbatim>\<open>delay\<close> are recorded, in order, in an output trace; what an animation does inside
  is not. The light and melody sequence written inline in \<^verbatim>\<open>setComboLoop\<close> is the single
  event \<open>ComboSavedShow\<close>.
\<close>

datatype event =
    ClearStrip
  | RainbowCycle int
  | AnimateModeChange Mode
  | BeepModeChange
  | ShowNumber int
  | Tone int int
  | AnimateWriteSuccess
  | AnimateWriteFailure
  | AnimateCardRead int int
  | ShowProgressBar int int
  | AnimateProgress int int
  | AnimateSuccess
  | AnimateFailure
  | ComboSavedShow
  | RelayHigh
  | RelayLow
  | Delay int

text \<open>
  The globals and function-local statics of the sketch, the EEPROM and the output trace.
  Two ghost fields observe the run without influencing it: \<open>ghost_events\<close> counts how
  often \<^verbatim>\<open>handleReader\<close> enters the block that handles a newly placed card, and
  \<open>ghost_oob\<close> is raised by a write outside the \<^verbatim>\<open>MAX_CARDS\<close> cells of an array.
\<close>

record state =
  currentMode :: Mode
  wasPressed :: bool
  pressStartTime :: ulong
  correctCode :: "int list"
  codeLength :: int
  enteredValues :: "int list"
  currentIndex :: int
  selectedValue :: int
  cardCurrentlyPresent :: bool
  lastUID :: "byte list"
  lastUIDSize :: byte
  lastCardCheckTime :: ulong
  buttonWasPressed :: bool
  eeprom :: "int \<Rightarrow> byte"
  out :: "event list"
  ghost_events :: nat
  ghost_oob :: bool

definition MAX_CARDS :: int where
  "MAX_CARDS = 10"

definition EEPROM_MAGIC_ADDR :: int where
  "EEPROM_MAGIC_ADDR = 0"

definition EEPROM_LENGTH_ADDR :: int where
  "EEPROM_LENGTH_ADDR = 1"

definition EEPROM_CODE_ADDR :: int where
  "EEPROM_CODE_ADDR = 2"

definition EEPROM_MAGIC_VALUE :: byte where
  "EEPROM_MAGIC_VALUE = 0x42"

definition emit :: "event list \<Rightarrow> state \<Rightarrow> state" where
  "emit es s = s\<lparr>out := out s @ es\<rparr>"

section \<open>Relay and button\<close>

definition triggerRelay :: "state \<Rightarrow> state" where
  "triggerRelay s = emit [RelayHigh, Delay 3000, RelayLow] s"

definition checkButtonPress :: "state \<Rightarrow> tick_input \<Rightarrow> state" where
  "checkButtonPress s i =
     (if button_low i then
        (if \<not> wasPressed s then s\<lparr>wasPressed := True, pressStartTime := button_millis i\<rparr>
         else s)
      else
        (if wasPressed s then
           (let pressDuration = button_millis i - pressStartTime s;
                s1 =
                  (if pressDuration \<ge> 4000 then
                     (if currentMode s \<noteq> SET_COMBO then
                        emit [AnimateModeChange SET_COMBO, BeepModeChange, ClearStrip]
                          (s\<lparr>currentMode := SET_COMBO, currentIndex := 0\<rparr>)
                      else s)
                   else if pressDuration \<ge> 100 \<and> pressDuration < 4000 then
                     (if currentMode s = PUZZLE then
                        triggerRelay
                          (emit [AnimateModeChange PROGRAM, BeepModeChange, ShowNumber 0]
                             (s\<lparr>currentMode := PROGRAM, selectedValue := 0\<rparr>))
                      else s)
                   else s)
            in s1\<lparr>wasPressed := False\<rparr>)
         else s))"

section \<open>Card identity and card transfers\<close>

text \<open>The loop of \<^verbatim>\<open>compareUID\<close>, from index \<open>i\<close> on.\<close>

function compareUID_loop :: "byte list \<Rightarrow> byte list \<Rightarrow> nat \<Rightarrow> nat \<Rightarrow> bool" where
  "compareUID_loop uid1 uid2 size1 i =
     (if i < size1 then
        (if uid1 ! i \<noteq> uid2 ! i then False else compareUID_loop uid1 uid2 size1 (i + 1))
      else True)"
  by pat_completeness auto
termination
  by (relation "measure (\<lambda>(uid1, uid2, size1, i). size1 - i)") auto

definition compareUID :: "byte list \<Rightarrow> byte \<Rightarrow> byte list \<Rightarrow> byte \<Rightarrow> bool" where
  "compareUID uid1 size1 uid2 size2 =
     (if size1 \<noteq> size2 then False else compareUID_loop uid1 uid2 (unat size1) 0)"

text \<open>
  \<^verbatim>\<open>readCard\<close>: up to three attempts. The result is the returned flag, the value left in
  the reference parameter (\<^verbatim>\<open>0xFF\<close> unless a read succeeded) and the \<^verbatim>\<open>delay\<close> calls made
  on the way, in order: every \<^verbatim>\<open>continue\<close> of the loop is preceded by \<^verbatim>\<open>delay(10)\<close>. The
  commands that only reset the reader (\<^verbatim>\<open>PCD_StopCrypto1\<close>, \<^verbatim>\<open>PICC_HaltA\<close>) act on the reader
  alone, whose answers are inputs here.
\<close>

function readCard_loop :: "(nat \<Rightarrow> xfer) \<Rightarrow> nat \<Rightarrow> event list \<Rightarrow> bool \<times> byte \<times> event list" where
  "readCard_loop r attempt es =
     (if attempt < 3 then
        (if auth_elapsed (r attempt) > 500 then (False, 0xFF, es)
         else if auth_status (r attempt) \<noteq> STATUS_OK then
           (if attempt < 2 then readCard_loop r (attempt + 1) (es @ [Delay 10])
            else (False, 0xFF, es))
         else if op_elapsed (r attempt) > 500 then (False, 0xFF, es)
         else if op_status (r attempt) = STATUS_OK then (True, buffer0 (r attempt), es)
         else if op_status (r attempt) = STATUS_CRC_WRONG \<and> attempt < 2 then
           readCard_loop r (attempt + 1) (es @ [Delay 10])
         else (if attempt < 2 then readCard_loop r (attempt + 1) (es @ [Delay 10])
               else (False, 0xFF, es)))
      else (False, 0xFF, es))"
  by pat_completeness auto
termination
  by (relation "measure (\<lambda>(r, attempt, es). 3 - attempt)") auto

definition readCard :: "(nat \<Rightarrow> xfer) \<Rightarrow> bool \<times> byte \<times> event list" where
  "readCard r = readCard_loop r 0 []"

text \<open>
  \<^verbatim>\<open>writeCard\<close>: the same attempts around \<^verbatim>\<open>MIFARE_Write\<close>, with the same \<^verbatim>\<open>delay(10)\<close>
  before every \<^verbatim>\<open>continue\<close>. The value goes to the card; the returned flag depends on the
  reader's answers only.
\<close>

function writeCard_loop :: "byte \<Rightarrow> (nat \<Rightarrow> xfer) \<Rightarrow> nat \<Rightarrow> event list \<Rightarrow> bool \<times> event list" where
  "writeCard_loop v r attempt es =
     (if attempt < 3 then
        (if auth_elapsed (r attempt) > 500 then (False, es)
         else if auth_status (r attempt) \<noteq> STATUS_OK then
           (if attempt < 2 then writeCard_loop v r (attempt + 1) (es @ [Delay 10])
            else (False, es))
         else if op_elapsed (r attempt) > 500 then (False, es)
         else if op_status (r attempt) = STATUS_OK then (True, es)
         else if op_status (r attempt) = STATUS_CRC_WRONG \<and> attempt < 2 then
           writeCard_loop v r (attempt + 1) (es @ [Delay 10])
         else (if attempt < 2 then writeCard_loop v r (attempt + 1) (es @ [Delay 10])
               else (False, es)))
      else (False, es))"
  by pat_completeness auto
termination
  by (relation "measure (\<lambda>(v, r, attempt, es). 3 - attempt)") auto

definition writeCard :: "byte \<Rightarrow> (nat \<Rightarrow> xfer) \<Rightarrow> bool \<times> event list" where
  "writeCard v r = writeCard_loop v r 0 []"

section \<open>The card reader handler\<close>

text \<open>
  A write to cell \<open>idx\<close> of one of the two \<^verbatim>\<open>int[MAX_CARDS]\<close> arrays. Outside the array
  the C program has no defined behaviour: the model leaves the array alone and raises
  \<open>ghost_oob\<close>.
\<close>

definition in_bounds :: "int \<Rightarrow> bool" where
  "in_bounds idx = (0 \<le> idx \<and> idx < MAX_CARDS)"

definition store_entered :: "int \<Rightarrow> int \<Rightarrow> state \<Rightarrow> state" where
  "store_entered idx v s =
     (if in_bounds idx then s\<lparr>enteredValues := (enteredValues s)[nat idx := v]\<rparr>
      else s\<lparr>ghost_oob := True\<rparr>)"

definition store_code :: "int \<Rightarrow> int \<Rightarrow> state \<Rightarrow> state" where
  "store_code idx v s =
     (if in_bounds idx then s\<lparr>correctCode := (correctCode s)[nat idx := v]\<rparr>
      else s\<lparr>ghost_oob := True\<rparr>)"

text \<open>
  The body of \<^verbatim>\<open>if (!compareUID(...))\<close> in \<^verbatim>\<open>handleReader\<close>: remember the identifier,
  then act according to the mode.
\<close>

definition onNewCard :: "uid \<Rightarrow> (nat \<Rightarrow> xfer) \<Rightarrow> state \<Rightarrow> state" where
  "onNewCard u r s0 =
     (let s1 = s0\<lparr>ghost_events := ghost_events s0 + 1\<rparr>;
          s = (if uid_size u \<le> 10 then
                 s1\<lparr>lastUID := take (unat (uid_size u)) (uidByte u)
                                @ drop (unat (uid_size u)) (lastUID s1),
                     lastUIDSize := uid_size u\<rparr>
               else s1)
      in
      if currentMode s = PROGRAM then
        (case writeCard (word_of_int (selectedValue s)) r of
           (True, es) \<Rightarrow>
             emit [Tone 800 100, AnimateWriteSuccess, ShowNumber (selectedValue s)] (emit es s)
         | (False, es) \<Rightarrow>
             emit [Tone 200 100, AnimateWriteFailure, ShowNumber (selectedValue s)] (emit es s))
      else if currentMode s = PUZZLE then
        (case readCard r of
           (True, val, es) \<Rightarrow>
             (let s2 = (store_entered (currentIndex s) (uint val) (emit es s))
                         \<lparr>currentIndex := currentIndex s + 1\<rparr>
              in emit [Tone 1500 100,
                       AnimateCardRead (currentIndex s2) (codeLength s2),
                       ShowProgressBar (currentIndex s2) (codeLength s2)] s2)
         | (False, val, es) \<Rightarrow>
             emit [Tone 200 100, AnimateWriteFailure,
                   ShowProgressBar (currentIndex s) (codeLength s)] (emit es s))
      else if currentMode s = SET_COMBO then
        (case readCard r of
           (True, val, es) \<Rightarrow>
             (let s2 = (store_code (currentIndex s) (uint val) (emit es s))
                         \<lparr>currentIndex := currentIndex s + 1\<rparr>
              in emit [Tone 1500 100, AnimateProgress (currentIndex s2) (codeLength s2)] s2)
         | (False, val, es) \<Rightarrow>
             emit [Tone 200 100, AnimateWriteFailure,
                   AnimateProgress (currentIndex s) (codeLength s)] (emit es s))
      else s)"

definition handleReader :: "state \<Rightarrow> tick_input \<Rightarrow> state" where
  "handleReader s0 i =
     (if reader_millis i - lastCardCheckTime s0 < 20 then s0
      else
        (let s = s0\<lparr>lastCardCheckTime := reader_millis i\<rparr> in
         case card i of
           Some u \<Rightarrow>
             (if \<not> cardCurrentlyPresent s then
                (let s1 = s\<lparr>cardCurrentlyPresent := True\<rparr> in
                 if \<not> compareUID (uidByte u) (uid_size u) (lastUID s1) (lastUIDSize s1)
                 then onNewCard u (rfid i) s1
                 else s1)
              else s)
         | None \<Rightarrow>
             (if cardCurrentlyPresent s then
                s\<lparr>cardCurrentlyPresent := False, lastUIDSize := 0\<rparr>
              else s)))"

section \<open>The combination in EEPROM\<close>

function save_loop :: "(int \<Rightarrow> byte) \<Rightarrow> int list \<Rightarrow> int \<Rightarrow> int \<Rightarrow> (int \<Rightarrow> byte)" where
  "save_loop e code n i =
     (if i < n then
        save_loop (e(EEPROM_CODE_ADDR + i := word_of_int (code ! nat i))) code n (i + 1)
      else e)"
  by pat_completeness auto
termination
  by (relation "measure (\<lambda>(e, code, n, i). nat (n - i))") auto

definition saveComboToEEPROM :: "state \<Rightarrow> state" where
  "saveComboToEEPROM s =
     s\<lparr>eeprom :=
         save_loop
           ((eeprom s)(EEPROM_MAGIC_ADDR := EEPROM_MAGIC_VALUE,
                       EEPROM_LENGTH_ADDR := word_of_int (codeLength s)))
           (correctCode s) (codeLength s) 0\<rparr>"

function load_loop :: "(int \<Rightarrow> byte) \<Rightarrow> int list \<Rightarrow> int \<Rightarrow> int \<Rightarrow> int list" where
  "load_loop e code n i =
     (if i < n then
        load_loop e (code[nat i := uint (e (EEPROM_CODE_ADDR + i))]) n (i + 1)
      else code)"
  by pat_completeness auto
termination
  by (relation "measure (\<lambda>(e, code, n, i). nat (n - i))") auto

definition loadComboFromEEPROM :: "state \<Rightarrow> state" where
  "loadComboFromEEPROM s =
     (if eeprom s EEPROM_MAGIC_ADDR = EEPROM_MAGIC_VALUE then
        (let savedLength = eeprom s EEPROM_LENGTH_ADDR in
         if savedLength > 0 \<and> uint savedLength \<le> MAX_CARDS then
           s\<lparr>codeLength := uint savedLength,
             correctCode := load_loop (eeprom s) (correctCode s) (uint savedLength) 0\<rparr>
         else s)
      else s)"

section \<open>The three mode loops and the main loop\<close>

text \<open>The button part of \<^verbatim>\<open>programmingLoop\<close>, which precedes its call of \<^verbatim>\<open>handleReader\<close>.\<close>

definition programButton :: "state \<Rightarrow> tick_input \<Rightarrow> state" where
  "programButton s i =
     (if program_button_low i then
        (if \<not> buttonWasPressed s then
           (let v = selectedValue s + 1;
                v' = (if v > 9 then 0 else v)
            in emit [ShowNumber v', Tone 1000 50, Delay 200]
                 (s\<lparr>buttonWasPressed := True, selectedValue := v'\<rparr>))
         else s)
      else s\<lparr>buttonWasPressed := False\<rparr>)"

definition programmingLoop :: "state \<Rightarrow> tick_input \<Rightarrow> state" where
  "programmingLoop s i = handleReader (programButton s i) i"

text \<open>The comparison loop of \<^verbatim>\<open>puzzleLoop\<close>, from index \<open>i\<close> on, with the flag so far.\<close>

function compare_loop :: "int list \<Rightarrow> int list \<Rightarrow> int \<Rightarrow> int \<Rightarrow> bool \<Rightarrow> bool" where
  "compare_loop entered code n i correct =
     (if i < n then
        compare_loop entered code n (i + 1)
          (if entered ! nat i \<noteq> code ! nat i then False else correct)
      else correct)"
  by pat_completeness auto
termination
  by (relation "measure (\<lambda>(entered, code, n, i, correct). nat (n - i))") auto

definition puzzleLoop :: "state \<Rightarrow> tick_input \<Rightarrow> state" where
  "puzzleLoop s0 i =
     (let s = handleReader s0 i in
      if currentIndex s \<ge> codeLength s then
        (let correct = compare_loop (enteredValues s) (correctCode s) (codeLength s) 0 True;
             s1 = (if correct then triggerRelay (emit [AnimateSuccess] s)
                   else emit [AnimateFailure] s)
         in emit [ClearStrip] (s1\<lparr>currentIndex := 0\<rparr>))
      else s)"

definition setComboLoop :: "state \<Rightarrow> tick_input \<Rightarrow> state" where
  "setComboLoop s0 i =
     (let s = handleReader s0 i in
      if currentIndex s \<ge> codeLength s then
        (let s1 = emit [ComboSavedShow, ClearStrip] (saveComboToEEPROM s)
         in emit [AnimateModeChange PUZZLE] (s1\<lparr>currentIndex := 0, currentMode := PUZZLE\<rparr>))
      else s)"

text \<open>
  One pass of \<^verbatim>\<open>loop()\<close>. The periodic health check at its start re-initialises the
  reader chip only and touches none of the globals.
\<close>

definition loop :: "state \<Rightarrow> tick_input \<Rightarrow> state" where
  "loop s0 i =
     (let s = checkButtonPress s0 i;
          s1 = (case currentMode s of
                  PROGRAM \<Rightarrow> programmingLoop s i
                | SET_COMBO \<Rightarrow> setComboLoop s i
                | PUZZLE \<Rightarrow> puzzleLoop s i)
      in emit [Delay 10] s1)"

text \<open>The globals as the C initialisers leave them, over a given EEPROM content.\<close>

definition initial :: "(int \<Rightarrow> byte) \<Rightarrow> state" where
  "initial e =
     \<lparr>currentMode = PUZZLE, wasPressed = False, pressStartTime = 0,
      correctCode = [1, 2, 3, 4, 0, 0, 0, 0, 0, 0], codeLength = 4,
      enteredValues = [0, 0, 0, 0, 0, 0, 0, 0, 0, 0], currentIndex = 0,
      selectedValue = 0, cardCurrentlyPresent = False,
      lastUID = [0, 0, 0, 0, 0, 0, 0, 0, 0, 0], lastUIDSize = 0,
      lastCardCheckTime = 0, buttonWasPressed = False,
      eeprom = e, out = [], ghost_events = 0, ghost_oob = False\<rparr>"

text \<open>
  \<^verbatim>\<open>setup()\<close>: the relay is switched off, the start-up animation plays, the combination
  is loaded, the mode animation plays.
\<close>

definition setup_sketch :: "(int \<Rightarrow> byte) \<Rightarrow> state" where
  "setup_sketch e =
     emit [AnimateModeChange PUZZLE]
       (loadComboFromEEPROM
          (emit [RelayLow, ClearStrip, RainbowCycle 30, ClearStrip] (initial e)))"

text \<open>The states at the start of a pass of \<^verbatim>\<open>loop()\<close>, from power-up over EEPROM content \<open>e\<close>.\<close>

inductive reachable :: "(int \<Rightarrow> byte) \<Rightarrow> state \<Rightarrow> bool" for e :: "int \<Rightarrow> byte" where
  reachable_setup: "reachable e (setup_sketch e)"
| reachable_loop: "reachable e s \<Longrightarrow> reachable e (loop s i)"

text \<open>The globals at the moment a pass of \<^verbatim>\<open>loop()\<close> from \<open>s\<close> calls \<^verbatim>\<open>handleReader\<close>.\<close>

definition reader_entry :: "state \<Rightarrow> tick_input \<Rightarrow> state" where
  "reader_entry s i =
     (let b = checkButtonPress s i in
      if currentMode b = PROGRAM then programButton b i else b)"

text \<open>Consecutive passes of \<^verbatim>\<open>loop()\<close>, one per input.\<close>

fun run :: "state \<Rightarrow> tick_input list \<Rightarrow> state" where
  "run s [] = s"
| "run s (i # ins) = run (loop s i) ins"

section \<open>Invariants and the persisted record\<close>

text \<open>
  Well-formedness of the globals: both arrays have their \<^verbatim>\<open>MAX_CARDS\<close> cells, the length
  of the combination is between 1 and \<^verbatim>\<open>MAX_CARDS\<close>, the index is not negative, no write
  has left an array, the remembered identifier is empty whenever no card is present, and
  every cell of the combination holds a byte value. \<open>wf_state\<close> adds the bound that holds
  between two passes of \<^verbatim>\<open>loop()\<close>: the index is below the length.
\<close>

definition wf_core :: "state \<Rightarrow> bool" where
  "wf_core s \<longleftrightarrow>
     length (correctCode s) = 10 \<and> length (enteredValues s) = 10 \<and>
     1 \<le> codeLength s \<and> codeLength s \<le> MAX_CARDS \<and> 0 \<le> currentIndex s \<and>
     \<not> ghost_oob s \<and>
     (\<not> cardCurrentlyPresent s \<longrightarrow> lastUIDSize s = 0) \<and>
     (\<forall>v \<in> set (correctCode s). 0 \<le> v \<and> v \<le> 255)"

definition wf_state :: "state \<Rightarrow> bool" where
  "wf_state s \<longleftrightarrow> wf_core s \<and> currentIndex s < codeLength s"

text \<open>
  The specification's three gestures and its classification of a press by its duration in
  milliseconds (section 4.1), written from the specification's words.
\<close>

datatype gesture = NoOp | ShortPress | LongHold

definition spec_classify :: "nat \<Rightarrow> gesture" where
  "spec_classify d = (if d < 100 then NoOp else if d < 4000 then ShortPress else LongHold)"

text \<open>
  The specification's validity of a persisted record (section 3): the magic byte at offset 0
  is the sentinel and the length byte at offset 1 is in \<open>1..MAX_CARDS\<close>.
\<close>

definition record_valid :: "(int \<Rightarrow> byte) \<Rightarrow> bool" where
  "record_valid e \<longleftrightarrow> e 0 = EEPROM_MAGIC_VALUE \<and> 1 \<le> uint (e 1) \<and> uint (e 1) \<le> 10"

text \<open>
  The EEPROM holds exactly the combination in memory: sentinel, length, and one byte for
  each of the \<^verbatim>\<open>codeLength\<close> values.
\<close>

definition persisted_matches :: "state \<Rightarrow> bool" where
  "persisted_matches s \<longleftrightarrow>
     eeprom s 0 = EEPROM_MAGIC_VALUE \<and> uint (eeprom s 1) = codeLength s \<and>
     (\<forall>k. 0 \<le> k \<and> k < codeLength s \<longrightarrow> uint (eeprom s (2 + k)) = correctCode s ! nat k)"

text \<open>
  Memory and storage agree: either the record matches, or the storage is still the invalid
  content \<open>e\<close> found at power-up and the combination is the compiled-in default.
\<close>

definition combo_synced :: "(int \<Rightarrow> byte) \<Rightarrow> state \<Rightarrow> bool" where
  "combo_synced e s \<longleftrightarrow>
     persisted_matches s \<or>
     (\<not> record_valid e \<and> eeprom s = e \<and> codeLength s = 4 \<and>
      correctCode s = [1, 2, 3, 4, 0, 0, 0, 0, 0, 0])"

text \<open>The condition under which \<^verbatim>\<open>handleReader\<close> goes past its 20 ms rate limit.\<close>

definition polls :: "state \<Rightarrow> tick_input \<Rightarrow> bool" where
  "polls s i \<longleftrightarrow> \<not> reader_millis i - lastCardCheckTime s < 20"

text \<open>
  The edge from no card to a card: \<^verbatim>\<open>handleReader\<close> polls, no card was noted as present,
  and the reader reports a card whose identifier is not empty.
\<close>

definition card_arrives :: "state \<Rightarrow> tick_input \<Rightarrow> bool" where
  "card_arrives s i \<longleftrightarrow>
     polls s i \<and> \<not> cardCurrentlyPresent s \<and>
     (case card i of None \<Rightarrow> False | Some u \<Rightarrow> uid_size u \<noteq> 0)"

section \<open>Sample inputs\<close>

text \<open>An erased EEPROM, and one holding a given magic byte and length byte.\<close>

definition blank_eeprom :: "int \<Rightarrow> byte" where
  "blank_eeprom = (\<lambda>a. 0xFF)"

definition record_of :: "byte \<Rightarrow> byte \<Rightarrow> int \<Rightarrow> byte" where
  "record_of m n = (\<lambda>a. if a = 0 then m else if a = 1 then n else 7)"

text \<open>A reader that times out, and one that reads the value \<open>v\<close> at once.\<close>

definition no_answer :: xfer where
  "no_answer = \<lparr>auth_elapsed = 0, auth_status = STATUS_TIMEOUT,
                 op_elapsed = 0, op_status = STATUS_TIMEOUT, buffer0 = 0\<rparr>"

definition answer :: "byte \<Rightarrow> xfer" where
  "answer v = \<lparr>auth_elapsed = 0, auth_status = STATUS_OK,
                op_elapsed = 0, op_status = STATUS_OK, buffer0 = v\<rparr>"

text \<open>
  Passes of the loop at clock value \<open>t\<close>: nothing happens; the button is down; a card with
  identifier \<open>u\<close> holding \<open>v\<close> lies on the reader; a card lies there that cannot be read.
\<close>

definition quiet :: "ulong \<Rightarrow> tick_input" where
  "quiet t = \<lparr>button_low = False, button_millis = t, program_button_low = False,
              reader_millis = t, card = None, rfid = (\<lambda>k. no_answer)\<rparr>"

definition pressed :: "ulong \<Rightarrow> tick_input" where
  "pressed t = (quiet t)\<lparr>button_low := True, program_button_low := True\<rparr>"

definition tag :: "byte \<Rightarrow> uid" where
  "tag b = \<lparr>uidByte = [b, 0xAD, 0xBE, 0xEF, 0, 0, 0, 0, 0, 0], uid_size = 4\<rparr>"

definition placed :: "ulong \<Rightarrow> uid \<Rightarrow> byte \<Rightarrow> tick_input" where
  "placed t u v = (quiet t)\<lparr>card := Some u, rfid := (\<lambda>k. answer v)\<rparr>"

definition unreadable :: "ulong \<Rightarrow> uid \<Rightarrow> tick_input" where
  "unreadable t u = (quiet t)\<lparr>card := Some u\<rparr>"

text \<open>The power-up globals in mode \<open>m\<close> with the button held since clock value \<open>t\<close>.\<close>

definition held_since :: "Mode \<Rightarrow> ulong \<Rightarrow> state" where
  "held_since m t =
     (initial blank_eeprom)\<lparr>currentMode := m, wasPressed := True, pressStartTime := t\<rparr>"

text \<open>The power-up globals with the values \<open>vs\<close> entered so far and \<open>n\<close> of them counted.\<close>

definition entered_so_far :: "int list \<Rightarrow> int \<Rightarrow> state" where
  "entered_so_far vs n = (initial blank_eeprom)\<lparr>enteredValues := vs, currentIndex := n\<rparr>"

text \<open>The power-up globals in SetCombo mode, \<open>n\<close> new values already stored in \<open>vs\<close>.\<close>

definition combo_so_far :: "int list \<Rightarrow> int \<Rightarrow> state" where
  "combo_so_far vs n =
     (initial blank_eeprom)\<lparr>currentMode := SET_COMBO, correctCode := vs, currentIndex := n\<rparr>"

text \<open>An EEPROM that holds the valid record of the combination 1, 2, 3, 4.\<close>

definition stored_1234 :: "int \<Rightarrow> byte" where
  "stored_1234 =
     (\<lambda>a. if a = 0 then 0x42 else if a = 1 then 4 else if a = 2 then 1
          else if a = 3 then 2 else if a = 4 then 3 else if a = 5 then 4 else 0xFF)"

text \<open>
  Power-up over an erased EEPROM, a hold of the button for 4000 ms, then four cards
  reading 5, 6, 7, 8, each taken off before the next: the part up to the first card, the
  part up to its removal, and all of it.
\<close>

definition hold_then_first_card :: "tick_input list" where
  "hold_then_first_card = [pressed 1000, quiet 5000, placed 5100 (tag 1) 5]"

definition first_card_removed :: "tick_input list" where
  "first_card_removed = hold_then_first_card @ [quiet 5200]"

definition set_combo_session :: "tick_input list" where
  "set_combo_session =
     first_card_removed @
     [placed 5300 (tag 2) 6, quiet 5400, placed 5500 (tag 3) 7,
      quiet 5600, placed 5700 (tag 4) 8]"

section \<open>Properties\<close>

declare compareUID_loop.simps [simp del] readCard_loop.simps [simp del]
  writeCard_loop.simps [simp del] save_loop.simps [simp del] load_loop.simps [simp del]
  compare_loop.simps [simp del]

subsection \<open>The loops\<close>

lemma compare_loop_iff:
  "compare_loop entered code n i correct \<longleftrightarrow>
     correct \<and> (\<forall>k. i \<le> k \<and> k < n \<longrightarrow> entered ! nat k = code ! nat k)"
proof (induction entered code n i correct rule: compare_loop.induct)
  case (1 entered code n i correct)
  show ?case
  proof (cases "i < n")
    case True
    have split: "(\<forall>k. i \<le> k \<and> k < n \<longrightarrow> entered ! nat k = code ! nat k) \<longleftrightarrow>
        entered ! nat i = code ! nat i \<and> (\<forall>k. i + 1 \<le> k \<and> k < n \<longrightarrow> entered ! nat k = code ! nat k)"
      using True by (metis add1_zle_eq order_le_less)
    show ?thesis
      using True "1.IH" [OF True] split
      by (subst compare_loop.simps) auto
  next
    case False
    then show ?thesis by (subst compare_loop.simps) auto
  qed
qed

lemma save_loop_apply:
  "save_loop e code n i a =
     (if EEPROM_CODE_ADDR + i \<le> a \<and> a < EEPROM_CODE_ADDR + n
      then word_of_int (code ! nat (a - EEPROM_CODE_ADDR)) else e a)"
proof (induction e code n i rule: save_loop.induct)
  case (1 e code n i)
  show ?case
  proof (cases "i < n")
    case True
    let ?e = "e(EEPROM_CODE_ADDR + i := word_of_int (code ! nat i))"
    have "save_loop e code n i a = save_loop ?e code n (i + 1) a"
      using True by (subst save_loop.simps) simp
    also have "\<dots> = (if EEPROM_CODE_ADDR + (i + 1) \<le> a \<and> a < EEPROM_CODE_ADDR + n
                       then word_of_int (code ! nat (a - EEPROM_CODE_ADDR)) else ?e a)"
      by (rule "1.IH" [OF True])
    also have "\<dots> = (if EEPROM_CODE_ADDR + i \<le> a \<and> a < EEPROM_CODE_ADDR + n
                       then word_of_int (code ! nat (a - EEPROM_CODE_ADDR)) else e a)"
      using True by auto
    finally show ?thesis .
  next
    case False
    then show ?thesis by (subst save_loop.simps) auto
  qed
qed

lemma length_load_loop: "length (load_loop e code n i) = length code"
proof (induction e code n i rule: load_loop.induct)
  case (1 e code n i)
  then show ?case by (subst load_loop.simps) auto
qed

lemma load_loop_nth:
  "0 \<le> i \<Longrightarrow> k < length code \<Longrightarrow>
   load_loop e code n i ! k =
     (if i \<le> int k \<and> int k < n then uint (e (EEPROM_CODE_ADDR + int k)) else code ! k)"
proof (induction e code n i rule: load_loop.induct)
  case (1 e code n i)
  show ?case
  proof (cases "i < n")
    case True
    show ?thesis
      using True "1.IH" [OF True] "1.prems"
      by (subst load_loop.simps) (auto simp: nth_list_update)
  next
    case False
    then show ?thesis by (subst load_loop.simps) auto
  qed
qed

lemma compareUID_loop_iff:
  "compareUID_loop uid1 uid2 size1 i \<longleftrightarrow> (\<forall>k. i \<le> k \<and> k < size1 \<longrightarrow> uid1 ! k = uid2 ! k)"
proof (induction uid1 uid2 size1 i rule: compareUID_loop.induct)
  case (1 uid1 uid2 size1 i)
  let ?from = "\<lambda>j. \<forall>k. j \<le> k \<and> k < size1 \<longrightarrow> uid1 ! k = uid2 ! k"
  show ?case
  proof (cases "i < size1")
    case False
    then show ?thesis by (subst compareUID_loop.simps) auto
  next
    case True
    show ?thesis
    proof (cases "uid1 ! i = uid2 ! i")
      case False
      have "\<not> compareUID_loop uid1 uid2 size1 i"
        using True False by (subst compareUID_loop.simps) simp
      moreover have "\<not> ?from i"
        using True False by (intro notI) (drule spec [of _ i], simp)
      ultimately show ?thesis by simp
    next
      case same: True
      have "compareUID_loop uid1 uid2 size1 i = compareUID_loop uid1 uid2 size1 (i + 1)"
        using True same by (subst compareUID_loop.simps) simp
      also have "\<dots> = ?from (i + 1)"
        using "1.IH" True same by simp
      also have "\<dots> = ?from i"
      proof (intro iffI allI impI)
        fix k
        assume rest: "?from (i + 1)" and k: "i \<le> k \<and> k < size1"
        show "uid1 ! k = uid2 ! k"
        proof (cases "k = i")
          case True
          then show ?thesis using same by simp
        next
          case False
          then have "i + 1 \<le> k" using k by arith
          then show ?thesis using rest k by blast
        qed
      next
        fix k
        assume all: "?from i" and k: "i + 1 \<le> k \<and> k < size1"
        then have "i \<le> k" by arith
        then show "uid1 ! k = uid2 ! k" using all k by blast
      qed
      finally show ?thesis .
    qed
  qed
qed

text \<open>\<^verbatim>\<open>compareUID\<close> holds when the sizes agree and so do the first \<open>size\<close> bytes.\<close>

lemma compareUID_iff:
  "compareUID uid1 size1 uid2 size2 \<longleftrightarrow>
     size1 = size2 \<and> (\<forall>k < unat size1. uid1 ! k = uid2 ! k)"
  by (simp add: compareUID_def compareUID_loop_iff)

text \<open>\<^verbatim>\<open>readCard\<close> pauses at most twice, 10 ms each time.\<close>

lemma readCard_loop_delays:
  "\<exists>n. n \<le> 2 - attempt \<and>
       snd (snd (readCard_loop r attempt es)) = es @ replicate n (Delay 10)"
proof (induction r attempt es rule: readCard_loop.induct)
  case (1 r attempt es)
  have stop: "\<exists>n. n \<le> 2 - attempt \<and> es = es @ replicate n (Delay 10)"
    by (intro exI [of _ 0]) simp
  have again: "\<exists>n. n \<le> 2 - attempt \<and>
      snd (snd (readCard_loop r (attempt + 1) (es @ [Delay 10]))) = es @ replicate n (Delay 10)"
    if ih: "\<exists>n. n \<le> 2 - (attempt + 1) \<and>
      snd (snd (readCard_loop r (attempt + 1) (es @ [Delay 10])))
        = (es @ [Delay 10]) @ replicate n (Delay 10)" and lt: "attempt < 2"
  proof -
    from ih obtain n where n: "n \<le> 2 - (attempt + 1)"
      "snd (snd (readCard_loop r (attempt + 1) (es @ [Delay 10])))
        = (es @ [Delay 10]) @ replicate n (Delay 10)" by blast
    have "Suc n \<le> 2 - attempt" using n(1) lt by arith
    moreover have "(es @ [Delay 10]) @ replicate n (Delay 10) = es @ replicate (Suc n) (Delay 10)"
      by simp
    ultimately show ?thesis using n(2) by metis
  qed
  show ?case
  proof (cases "attempt < 3")
    case False
    then show ?thesis using stop by (subst readCard_loop.simps) simp
  next
    case a: True
    show ?thesis
    proof (cases "auth_elapsed (r attempt) > 500")
      case True
      then show ?thesis using a stop by (subst readCard_loop.simps) simp
    next
      case t1: False
      show ?thesis
      proof (cases "auth_status (r attempt) \<noteq> STATUS_OK")
        case True
        show ?thesis
        proof (cases "attempt < 2")
          case lt: True
          have "snd (snd (readCard_loop r attempt es))
              = snd (snd (readCard_loop r (attempt + 1) (es @ [Delay 10])))"
            using a t1 True lt by (subst readCard_loop.simps) simp
          then show ?thesis using again [OF "1.IH"(1) [OF a t1 True lt] lt] by simp
        next
          case False
          then show ?thesis using a t1 True stop by (subst readCard_loop.simps) simp
        qed
      next
        case auth_ok: False
        show ?thesis
        proof (cases "op_elapsed (r attempt) > 500")
          case True
          then show ?thesis using a t1 auth_ok stop by (subst readCard_loop.simps) simp
        next
          case t2: False
          show ?thesis
          proof (cases "op_status (r attempt) = STATUS_OK")
            case True
            then show ?thesis using a t1 auth_ok t2 stop by (subst readCard_loop.simps) simp
          next
            case bad: False
            show ?thesis
            proof (cases "attempt < 2")
              case False
              then show ?thesis
                using a t1 auth_ok t2 bad stop by (subst readCard_loop.simps) simp
            next
              case lt: True
              have eq: "snd (snd (readCard_loop r attempt es))
                  = snd (snd (readCard_loop r (attempt + 1) (es @ [Delay 10])))"
                using a t1 auth_ok t2 bad lt by (subst readCard_loop.simps) simp
              show ?thesis
              proof (cases "op_status (r attempt) = STATUS_CRC_WRONG \<and> attempt < 2")
                case True
                then show ?thesis
                  using again [OF "1.IH"(2) [OF a t1 auth_ok t2 bad True] lt] eq by simp
              next
                case False
                then show ?thesis
                  using again [OF "1.IH"(3) [OF a t1 auth_ok t2 bad False lt] lt] eq by simp
              qed
            qed
          qed
        qed
      qed
    qed
  qed
qed

lemma readCard_delays: "\<exists>n\<le>2. snd (snd (readCard r)) = replicate n (Delay 10)"
  using readCard_loop_delays [of 0 r "[]"] by (simp add: readCard_def)

subsection \<open>Well-formedness is invariant\<close>

lemma handleReader_frame:
  "currentMode (handleReader s i) = currentMode s"
  "codeLength (handleReader s i) = codeLength s"
  "eeprom (handleReader s i) = eeprom s"
  "selectedValue (handleReader s i) = selectedValue s"
  by (auto simp: handleReader_def onNewCard_def Let_def emit_def store_entered_def
      store_code_def split: option.splits prod.splits bool.splits)

lemma uint_byte_range: "0 \<le> uint (b :: byte) \<and> uint b \<le> 255"
  using uint_lt2p [of b] by simp

lemma in_set_updateD: "v \<in> set (xs[k := w]) \<Longrightarrow> v = w \<or> v \<in> set xs"
  using set_update_subset_insert [of xs k w] by auto

lemma wf_onNewCard:
  assumes "wf_core s" "currentIndex s < codeLength s" "cardCurrentlyPresent s"
  shows "wf_core (onNewCard u r s) \<and> currentIndex (onNewCard u r s) \<le> codeLength s"
  using assms uint_byte_range
  by (auto simp: wf_core_def onNewCard_def Let_def emit_def store_entered_def
      store_code_def in_bounds_def MAX_CARDS_def
      split: prod.splits bool.splits dest!: in_set_updateD)

lemma wf_handleReader:
  assumes "wf_core s" "currentIndex s < codeLength s"
  shows "wf_core (handleReader s i) \<and> currentIndex (handleReader s i) \<le> codeLength s"
proof -
  have a: "wf_core (s\<lparr>lastCardCheckTime := t, cardCurrentlyPresent := True\<rparr>)" for t
    using assms by (simp add: wf_core_def)
  have b: "wf_core (s\<lparr>lastCardCheckTime := t, cardCurrentlyPresent := False, lastUIDSize := 0\<rparr>)" for t
    using assms by (simp add: wf_core_def)
  have c: "wf_core (s\<lparr>lastCardCheckTime := t\<rparr>)" for t
    using assms by (simp add: wf_core_def)
  show ?thesis
    using assms a b c
      wf_onNewCard [of "s\<lparr>lastCardCheckTime := reader_millis i, cardCurrentlyPresent := True\<rparr>"]
    by (auto simp: handleReader_def Let_def split: option.splits)
qed

lemma checkButtonPress_frame:
  "codeLength (checkButtonPress s i) = codeLength s"
  "correctCode (checkButtonPress s i) = correctCode s"
  "enteredValues (checkButtonPress s i) = enteredValues s"
  "eeprom (checkButtonPress s i) = eeprom s"
  "cardCurrentlyPresent (checkButtonPress s i) = cardCurrentlyPresent s"
  "lastUID (checkButtonPress s i) = lastUID s"
  "lastUIDSize (checkButtonPress s i) = lastUIDSize s"
  "lastCardCheckTime (checkButtonPress s i) = lastCardCheckTime s"
  "ghost_events (checkButtonPress s i) = ghost_events s"
  "ghost_oob (checkButtonPress s i) = ghost_oob s"
  by (simp_all add: checkButtonPress_def Let_def emit_def triggerRelay_def)

lemma checkButtonPress_index:
  "currentIndex (checkButtonPress s i) = currentIndex s \<or> currentIndex (checkButtonPress s i) = 0"
  by (simp add: checkButtonPress_def Let_def emit_def triggerRelay_def)

lemma wf_checkButtonPress: "wf_state s \<Longrightarrow> wf_state (checkButtonPress s i)"
  using checkButtonPress_index [of s i]
  by (auto simp: wf_state_def wf_core_def checkButtonPress_frame)

lemma wf_puzzleLoop: "wf_state s \<Longrightarrow> wf_state (puzzleLoop s i)"
  using wf_handleReader [of s i]
  by (auto simp: wf_state_def puzzleLoop_def Let_def emit_def triggerRelay_def
      wf_core_def handleReader_frame)

lemma wf_setComboLoop: "wf_state s \<Longrightarrow> wf_state (setComboLoop s i)"
  using wf_handleReader [of s i]
  by (auto simp: wf_state_def setComboLoop_def Let_def emit_def saveComboToEEPROM_def
      wf_core_def handleReader_frame)

lemma programButton_frame:
  "currentMode (programButton s i) = currentMode s"
  "currentIndex (programButton s i) = currentIndex s"
  "codeLength (programButton s i) = codeLength s"
  "correctCode (programButton s i) = correctCode s"
  "enteredValues (programButton s i) = enteredValues s"
  "eeprom (programButton s i) = eeprom s"
  "cardCurrentlyPresent (programButton s i) = cardCurrentlyPresent s"
  "lastUID (programButton s i) = lastUID s"
  "lastUIDSize (programButton s i) = lastUIDSize s"
  "lastCardCheckTime (programButton s i) = lastCardCheckTime s"
  "ghost_events (programButton s i) = ghost_events s"
  "ghost_oob (programButton s i) = ghost_oob s"
  by (simp_all add: programButton_def Let_def emit_def)

lemma wf_programButton: "wf_state s \<Longrightarrow> wf_state (programButton s i)"
  by (simp add: wf_state_def wf_core_def programButton_frame)

lemma handleReader_index_program:
  "currentMode s = PROGRAM \<Longrightarrow> currentIndex (handleReader s i) = currentIndex s"
  by (auto simp: handleReader_def onNewCard_def Let_def emit_def
      split: option.splits prod.splits bool.splits)

lemma wf_programmingLoop:
  assumes "wf_state s" "currentMode s = PROGRAM"
  shows "wf_state (programmingLoop s i)"
  using wf_programButton [OF assms(1), of i] assms(2)
    wf_handleReader [of "programButton s i" i]
    handleReader_index_program [of "programButton s i" i]
  by (simp add: programmingLoop_def wf_state_def programButton_frame handleReader_frame)

lemma wf_core_emit: "wf_core (emit es s) = wf_core s"
  by (simp add: wf_core_def emit_def)

lemma wf_state_emit: "wf_state (emit es s) = wf_state s"
  by (simp add: wf_state_def wf_core_emit) (simp add: emit_def)

lemma wf_loop: "wf_state s \<Longrightarrow> wf_state (loop s i)"
  using wf_checkButtonPress [of s i]
  by (auto simp: loop_def Let_def wf_state_emit wf_puzzleLoop wf_setComboLoop wf_programmingLoop
      split: Mode.splits)

lemma wf_initial: "wf_state (initial e)"
  by (simp add: wf_state_def wf_core_def initial_def MAX_CARDS_def)

lemma byte_pos: "0 < (b::byte) \<longleftrightarrow> 1 \<le> uint b"
  by (auto simp: word_less_def)

lemma wf_loadComboFromEEPROM:
  assumes "wf_state s" "currentIndex s = 0"
  shows "wf_state (loadComboFromEEPROM s)"
proof (cases "eeprom s EEPROM_MAGIC_ADDR = EEPROM_MAGIC_VALUE \<and>
    eeprom s EEPROM_LENGTH_ADDR > 0 \<and> uint (eeprom s EEPROM_LENGTH_ADDR) \<le> MAX_CARDS")
  case True
  let ?n = "uint (eeprom s EEPROM_LENGTH_ADDR)"
  let ?c = "load_loop (eeprom s) (correctCode s) ?n 0"
  have eq: "loadComboFromEEPROM s = s\<lparr>codeLength := ?n, correctCode := ?c\<rparr>"
    using True by (simp add: loadComboFromEEPROM_def Let_def)
  have pos: "1 \<le> ?n"
    using True by (simp add: byte_pos)
  have len: "length ?c = 10"
    using assms by (simp add: length_load_loop wf_state_def wf_core_def)
  have rng: "0 \<le> v \<and> v \<le> 255" if "v \<in> set ?c" for v
  proof -
    from that obtain k where k: "k < length ?c" "?c ! k = v"
      by (auto simp: in_set_conv_nth)
    have kl: "k < length (correctCode s)" using k(1) by (simp add: length_load_loop)
    have old: "0 \<le> correctCode s ! k \<and> correctCode s ! k \<le> 255"
      using kl assms(1) nth_mem [OF kl] by (simp add: wf_state_def wf_core_def)
    have "?c ! k = (if int k < ?n then uint (eeprom s (EEPROM_CODE_ADDR + int k))
                    else correctCode s ! k)"
      using load_loop_nth [of 0 k "correctCode s" "eeprom s" ?n] kl by simp
    then have "0 \<le> ?c ! k \<and> ?c ! k \<le> 255"
      using old uint_byte_range [of "eeprom s (EEPROM_CODE_ADDR + int k)"]
      by (simp split: if_splits)
    then show ?thesis using k(2) by simp
  qed
  show ?thesis
    unfolding eq using assms True pos len rng
    by (auto simp: wf_state_def wf_core_def)
next
  case False
  then have "loadComboFromEEPROM s = s"
    by (auto simp: loadComboFromEEPROM_def Let_def)
  then show ?thesis using assms by simp
qed

lemma wf_setup: "wf_state (setup_sketch e)"
  using wf_loadComboFromEEPROM [of "emit [RelayLow, ClearStrip, RainbowCycle 30, ClearStrip] (initial e)"]
    wf_initial [of e]
  by (simp add: setup_sketch_def wf_state_emit) (simp add: emit_def initial_def)

lemma reachable_wf: "reachable e s \<Longrightarrow> wf_state s"
  by (induction rule: reachable.induct) (simp_all add: wf_setup wf_loop)

subsection \<open>The button\<close>

text \<open>
  Claim C3. While the button is down \<^verbatim>\<open>checkButtonPress\<close> only notes the start of the press;
  with the button up and no press pending it does nothing. On the release edge, with \<open>d\<close> the
  measured duration \<^verbatim>\<open>millis() - pressStartTime\<close> (32-bit unsigned), the outcome is the one
  of the specification's classification: nothing but the cleared press flag for \<open>d < 100\<close>,
  the short-press action for \<open>100 \<le> d < 4000\<close>, the long-hold action for \<open>d \<ge> 4000\<close>.
\<close>

theorem checkButtonPress_classifies:
  "(button_low i \<and> wasPressed s \<longrightarrow> checkButtonPress s i = s) \<and>
   (button_low i \<and> \<not> wasPressed s \<longrightarrow>
      checkButtonPress s i = s\<lparr>wasPressed := True, pressStartTime := button_millis i\<rparr>) \<and>
   (\<not> button_low i \<and> \<not> wasPressed s \<longrightarrow> checkButtonPress s i = s) \<and>
   (\<not> button_low i \<and> wasPressed s \<longrightarrow>
      checkButtonPress s i =
        (case spec_classify (unat (button_millis i - pressStartTime s)) of
           NoOp \<Rightarrow> s\<lparr>wasPressed := False\<rparr>
         | ShortPress \<Rightarrow>
             (if currentMode s = PUZZLE then
                s\<lparr>currentMode := PROGRAM, selectedValue := 0,
                  out := out s @ [AnimateModeChange PROGRAM, BeepModeChange, ShowNumber 0,
                                  RelayHigh, Delay 3000, RelayLow],
                  wasPressed := False\<rparr>
              else s\<lparr>wasPressed := False\<rparr>)
         | LongHold \<Rightarrow>
             (if currentMode s \<noteq> SET_COMBO then
                s\<lparr>currentMode := SET_COMBO, currentIndex := 0,
                  out := out s @ [AnimateModeChange SET_COMBO, BeepModeChange, ClearStrip],
                  wasPressed := False\<rparr>
              else s\<lparr>wasPressed := False\<rparr>)))"
  by (simp add: checkButtonPress_def spec_classify_def Let_def emit_def triggerRelay_def
      word_le_nat_alt word_less_nat_alt not_le not_less)

text \<open>
  The classification at the thresholds: 99, 100, 3999 and 4000 ms, a press still held, and a
  press across the wrap-around of the 32-bit clock.
\<close>

theorem checkButtonPress_classifies_witness:
  "(button_low (pressed 7000) \<and> wasPressed (held_since PUZZLE 1000) \<and>
      checkButtonPress (held_since PUZZLE 1000) (pressed 7000) = held_since PUZZLE 1000) \<and>
   (\<not> button_low (quiet 1099) \<and> wasPressed (held_since PUZZLE 1000) \<and>
      checkButtonPress (held_since PUZZLE 1000) (quiet 1099)
        = (held_since PUZZLE 1000)\<lparr>wasPressed := False\<rparr>) \<and>
   (\<not> button_low (quiet 1100) \<and> wasPressed (held_since PUZZLE 1000) \<and>
      currentMode (checkButtonPress (held_since PUZZLE 1000) (quiet 1100)) = PROGRAM) \<and>
   (\<not> button_low (quiet 4999) \<and> wasPressed (held_since PUZZLE 1000) \<and>
      currentMode (checkButtonPress (held_since PUZZLE 1000) (quiet 4999)) = PROGRAM) \<and>
   (\<not> button_low (quiet 5000) \<and> wasPressed (held_since PUZZLE 1000) \<and>
      currentMode (checkButtonPress (held_since PUZZLE 1000) (quiet 5000)) = SET_COMBO) \<and>
   (\<not> button_low (quiet 904) \<and> wasPressed (held_since PUZZLE 1000) \<and>
      currentMode (checkButtonPress (held_since PUZZLE 1000) (quiet 904)) = SET_COMBO)"
  using checkButtonPress_classifies [where s = "held_since PUZZLE 1000" and i = "pressed 7000"]
    checkButtonPress_classifies [where s = "held_since PUZZLE 1000" and i = "quiet 1099"]
    checkButtonPress_classifies [where s = "held_since PUZZLE 1000" and i = "quiet 1100"]
    checkButtonPress_classifies [where s = "held_since PUZZLE 1000" and i = "quiet 4999"]
    checkButtonPress_classifies [where s = "held_since PUZZLE 1000" and i = "quiet 5000"]
    checkButtonPress_classifies [where s = "held_since PUZZLE 1000" and i = "quiet 904"]
  by (simp add: held_since_def quiet_def pressed_def initial_def spec_classify_def)

text \<open>
  Claim C6. A short press released in Puzzle mode sets the mode to Program, sets the selected
  value to 0, plays the mode-change presentation and pulses the relay; released in Program or
  SetCombo mode it changes nothing but the pending-press flag.
\<close>

theorem short_press_effect:
  assumes "wasPressed s" and "\<not> button_low i"
    and "100 \<le> unat (button_millis i - pressStartTime s)"
    and "unat (button_millis i - pressStartTime s) < 4000"
  shows "(currentMode s = PUZZLE \<longrightarrow>
            checkButtonPress s i =
              s\<lparr>currentMode := PROGRAM, selectedValue := 0,
                out := out s @ [AnimateModeChange PROGRAM, BeepModeChange, ShowNumber 0]
                             @ [RelayHigh, Delay 3000, RelayLow],
                wasPressed := False\<rparr>) \<and>
         (currentMode s \<noteq> PUZZLE \<longrightarrow> checkButtonPress s i = s\<lparr>wasPressed := False\<rparr>)"
  using assms
  by (simp add: checkButtonPress_def Let_def emit_def triggerRelay_def
      word_le_nat_alt word_less_nat_alt not_le not_less)

text \<open>A press of 500 ms released in each of the three modes.\<close>

theorem short_press_effect_witness:
  "(wasPressed (held_since PUZZLE 1000) \<and> \<not> button_low (quiet 1500) \<and>
    currentMode (checkButtonPress (held_since PUZZLE 1000) (quiet 1500)) = PROGRAM \<and>
    selectedValue (checkButtonPress (held_since PUZZLE 1000) (quiet 1500)) = 0 \<and>
    out (checkButtonPress (held_since PUZZLE 1000) (quiet 1500)) =
      [AnimateModeChange PROGRAM, BeepModeChange, ShowNumber 0, RelayHigh, Delay 3000, RelayLow]) \<and>
   currentMode (checkButtonPress (held_since PROGRAM 1000) (quiet 1500)) = PROGRAM \<and>
   currentMode (checkButtonPress (held_since SET_COMBO 1000) (quiet 1500)) = SET_COMBO \<and>
   out (checkButtonPress (held_since SET_COMBO 1000) (quiet 1500)) = []"
  using short_press_effect [where s = "held_since PUZZLE 1000" and i = "quiet 1500"]
    short_press_effect [where s = "held_since PROGRAM 1000" and i = "quiet 1500"]
    short_press_effect [where s = "held_since SET_COMBO 1000" and i = "quiet 1500"]
  by (simp add: held_since_def quiet_def initial_def)

text \<open>
  Claim C7. A long hold released in a mode other than SetCombo sets the mode to SetCombo,
  resets the index of the entered sequence to 0 and plays the mode-change presentation;
  released in SetCombo mode it changes nothing but the pending-press flag.
\<close>

theorem long_hold_effect:
  assumes "wasPressed s" and "\<not> button_low i"
    and "4000 \<le> unat (button_millis i - pressStartTime s)"
  shows "(currentMode s \<noteq> SET_COMBO \<longrightarrow>
            checkButtonPress s i =
              s\<lparr>currentMode := SET_COMBO, currentIndex := 0,
                out := out s @ [AnimateModeChange SET_COMBO, BeepModeChange, ClearStrip],
                wasPressed := False\<rparr>) \<and>
         (currentMode s = SET_COMBO \<longrightarrow> checkButtonPress s i = s\<lparr>wasPressed := False\<rparr>)"
  using assms
  by (simp add: checkButtonPress_def Let_def emit_def triggerRelay_def
      word_le_nat_alt word_less_nat_alt not_le not_less)

text \<open>A hold of 4000 ms released in Program mode and in SetCombo mode, two cards entered.\<close>

theorem long_hold_effect_witness:
  "(wasPressed (held_since PROGRAM 1000) \<and> \<not> button_low (quiet 5000) \<and>
    currentMode (checkButtonPress ((held_since PROGRAM 1000)\<lparr>currentIndex := 2\<rparr>) (quiet 5000))
      = SET_COMBO \<and>
    currentIndex (checkButtonPress ((held_since PROGRAM 1000)\<lparr>currentIndex := 2\<rparr>) (quiet 5000))
      = 0 \<and>
    out (checkButtonPress ((held_since PROGRAM 1000)\<lparr>currentIndex := 2\<rparr>) (quiet 5000)) =
      [AnimateModeChange SET_COMBO, BeepModeChange, ClearStrip]) \<and>
   currentIndex (checkButtonPress ((held_since SET_COMBO 1000)\<lparr>currentIndex := 2\<rparr>) (quiet 5000))
      = 2 \<and>
   out (checkButtonPress ((held_since SET_COMBO 1000)\<lparr>currentIndex := 2\<rparr>) (quiet 5000)) = []"
  using long_hold_effect [where s = "(held_since PROGRAM 1000)\<lparr>currentIndex := 2\<rparr>" and i = "quiet 5000"]
    long_hold_effect [where s = "(held_since SET_COMBO 1000)\<lparr>currentIndex := 2\<rparr>" and i = "quiet 5000"]
  by (simp add: held_since_def quiet_def initial_def)

subsection \<open>Loading the combination\<close>

lemma setup_frame:
  "currentMode (setup_sketch e) = PUZZLE" "eeprom (setup_sketch e) = e"
  by (simp_all add: setup_sketch_def emit_def loadComboFromEEPROM_def Let_def initial_def)

lemma setup_invalid:
  assumes "\<not> record_valid e"
  shows "correctCode (setup_sketch e) = [1, 2, 3, 4, 0, 0, 0, 0, 0, 0] \<and> codeLength (setup_sketch e) = 4"
  using assms
  by (auto simp: setup_sketch_def emit_def loadComboFromEEPROM_def Let_def initial_def
      record_valid_def byte_pos EEPROM_MAGIC_ADDR_def EEPROM_LENGTH_ADDR_def MAX_CARDS_def)

lemma setup_valid:
  assumes v: "record_valid e"
  shows "codeLength (setup_sketch e) = uint (e 1) \<and>
      (\<forall>k. 0 \<le> k \<and> k < uint (e 1) \<longrightarrow> correctCode (setup_sketch e) ! nat k = uint (e (2 + k)))"
proof -
  let ?s0 = "emit [RelayLow, ClearStrip, RainbowCycle 30, ClearStrip] (initial e)"
  have e0: "eeprom ?s0 = e" by (simp add: emit_def initial_def)
  have eq: "loadComboFromEEPROM ?s0 =
      ?s0\<lparr>codeLength := uint (e 1),
           correctCode := load_loop e (correctCode ?s0) (uint (e 1)) 0\<rparr>"
    using v e0
    by (simp add: loadComboFromEEPROM_def record_valid_def Let_def byte_pos
        EEPROM_MAGIC_ADDR_def EEPROM_LENGTH_ADDR_def MAX_CARDS_def)
  have len: "length (correctCode ?s0) = 10" by (simp add: emit_def initial_def)
  have "load_loop e (correctCode ?s0) (uint (e 1)) 0 ! nat k = uint (e (2 + k))"
    if "0 \<le> k" "k < uint (e 1)" for k
  proof -
    have "uint (e 1) \<le> 10" using v by (simp add: record_valid_def)
    then have "nat k < 10" using that by linarith
    then show ?thesis
      using load_loop_nth [of 0 "nat k" "correctCode ?s0" e "uint (e 1)"] that len
      by (simp add: EEPROM_CODE_ADDR_def)
  qed
  then show ?thesis
    by (simp add: setup_sketch_def eq) (simp add: emit_def)
qed

text \<open>
  Claim C5. \<^verbatim>\<open>loadComboFromEEPROM\<close> leaves the globals as they are unless the record is
  valid (magic byte equal to the sentinel, length byte in 1..10): after power-up over an
  invalid record the combination is the default \<open>[1,2,3,4]\<close> of length 4, over a valid one it
  has the stored length and values; the load never changes the EEPROM.
\<close>

theorem load_validation:
  "(\<not> record_valid (eeprom s) \<longrightarrow> loadComboFromEEPROM s = s) \<and>
   (\<not> record_valid e \<longrightarrow>
      correctCode (setup_sketch e) = [1, 2, 3, 4, 0, 0, 0, 0, 0, 0] \<and> codeLength (setup_sketch e) = 4) \<and>
   (record_valid e \<longrightarrow>
      codeLength (setup_sketch e) = uint (e 1) \<and>
      (\<forall>k. 0 \<le> k \<and> k < uint (e 1) \<longrightarrow>
           correctCode (setup_sketch e) ! nat k = uint (e (2 + k)))) \<and>
   eeprom (loadComboFromEEPROM s) = eeprom s \<and>
   eeprom (setup_sketch e) = e"
proof -
  have unchanged: "loadComboFromEEPROM s = s" if "\<not> record_valid (eeprom s)"
    using that
    by (auto simp: loadComboFromEEPROM_def record_valid_def Let_def byte_pos
        EEPROM_MAGIC_ADDR_def EEPROM_LENGTH_ADDR_def MAX_CARDS_def)
  have frame: "eeprom (loadComboFromEEPROM s) = eeprom s"
    by (simp add: loadComboFromEEPROM_def Let_def)
  show ?thesis
    using unchanged setup_invalid [of e] setup_valid [of e] frame setup_frame(2) [of e]
    by (intro conjI impI) simp_all
qed

text \<open>An erased EEPROM, records of length 0 and 11 with the right magic byte, and a valid one.\<close>

theorem load_validation_witness:
  "(\<not> record_valid blank_eeprom \<and>
      correctCode (setup_sketch blank_eeprom) = [1, 2, 3, 4, 0, 0, 0, 0, 0, 0] \<and>
      codeLength (setup_sketch blank_eeprom) = 4) \<and>
   (\<not> record_valid (record_of 0x42 0) \<and>
      correctCode (setup_sketch (record_of 0x42 0)) = [1, 2, 3, 4, 0, 0, 0, 0, 0, 0] \<and>
      codeLength (setup_sketch (record_of 0x42 0)) = 4) \<and>
   (\<not> record_valid (record_of 0x42 11) \<and>
      correctCode (setup_sketch (record_of 0x42 11)) = [1, 2, 3, 4, 0, 0, 0, 0, 0, 0] \<and>
      codeLength (setup_sketch (record_of 0x42 11)) = 4) \<and>
   (record_valid (record_of 0x42 10) \<and> codeLength (setup_sketch (record_of 0x42 10)) = 10 \<and>
      correctCode (setup_sketch (record_of 0x42 10)) ! 9 = 7 \<and>
      eeprom (setup_sketch (record_of 0x42 10)) = record_of 0x42 10)"
proof -
  have v: "record_valid (record_of 0x42 10)"
    by (simp add: record_valid_def record_of_def EEPROM_MAGIC_VALUE_def)
  have all: "\<forall>k. 0 \<le> k \<and> k < 10 \<longrightarrow>
      correctCode (setup_sketch (record_of 0x42 10)) ! nat k = 7"
    using load_validation [where e = "record_of 0x42 10"] v
    by (simp add: record_of_def)
  have nine: "correctCode (setup_sketch (record_of 0x42 10)) ! 9 = 7"
    using all [rule_format, of 9] by simp
  show ?thesis
    using load_validation [where e = blank_eeprom]
      load_validation [where e = "record_of 0x42 0"]
      load_validation [where e = "record_of 0x42 11"]
      load_validation [where e = "record_of 0x42 10"] nine
    by (simp add: record_valid_def blank_eeprom_def record_of_def EEPROM_MAGIC_VALUE_def)
qed

lemma reachable_run: "reachable e s \<Longrightarrow> reachable e (run s ins)"
  by (induction ins arbitrary: s) (simp_all add: reachable_loop)

lemma wf_reader_entry: "wf_state s \<Longrightarrow> wf_state (reader_entry s i)"
  by (simp add: reader_entry_def Let_def wf_checkButtonPress wf_programButton)

lemma handleReader_code_frame:
  "currentMode s \<noteq> SET_COMBO \<Longrightarrow> correctCode (handleReader s i) = correctCode s"
  by (auto simp: handleReader_def onNewCard_def Let_def emit_def store_entered_def
      split: option.splits prod.splits bool.splits Mode.splits)

subsection \<open>Evaluating the entered sequence\<close>

text \<open>
  Claim C1. In Puzzle mode, when the card handler has brought the count of entered values up
  to the length of the combination, \<^verbatim>\<open>puzzleLoop\<close> plays the success presentation and pulses
  the relay if and only if every entered position equals the position of the combination,
  and the failure presentation otherwise; either way the count is reset to 0, the mode stays
  Puzzle and the combination is untouched.
\<close>

theorem puzzle_evaluation:
  assumes "wf_state s" and "currentMode s = PUZZLE"
    and "codeLength (handleReader s i) \<le> currentIndex (handleReader s i)"
  shows "currentIndex (handleReader s i) = codeLength s \<and>
         out (puzzleLoop s i) =
           out (handleReader s i) @
           (if \<forall>k. 0 \<le> k \<and> k < codeLength s \<longrightarrow>
                  enteredValues (handleReader s i) ! nat k = correctCode s ! nat k
            then [AnimateSuccess, RelayHigh, Delay 3000, RelayLow]
            else [AnimateFailure]) @ [ClearStrip] \<and>
         currentIndex (puzzleLoop s i) = 0 \<and>
         currentMode (puzzleLoop s i) = PUZZLE \<and>
         correctCode (puzzleLoop s i) = correctCode s \<and>
         codeLength (puzzleLoop s i) = codeLength s"
proof -
  let ?h = "handleReader s i"
  have fr: "codeLength ?h = codeLength s" "currentMode ?h = PUZZLE" "correctCode ?h = correctCode s"
    using assms(2) by (simp_all add: handleReader_frame handleReader_code_frame)
  have le: "currentIndex ?h \<le> codeLength s"
    using wf_handleReader [of s i] assms(1) by (simp add: wf_state_def)
  have full: "currentIndex ?h = codeLength s"
    using le assms(3) fr(1) by simp
  show ?thesis
    using full fr assms(3)
    by (simp add: puzzleLoop_def Let_def compare_loop_iff emit_def triggerRelay_def)
qed

lemmas sample_defs =
  quiet_def pressed_def placed_def unreadable_def tag_def answer_def no_answer_def
  initial_def blank_eeprom_def entered_so_far_def held_since_def combo_so_far_def
  stored_1234_def hold_then_first_card_def first_card_removed_def set_combo_session_def

lemmas reader_defs =
  handleReader_def onNewCard_def Let_def emit_def store_entered_def store_code_def
  in_bounds_def MAX_CARDS_def compareUID_def readCard_def readCard_loop.simps
  writeCard_def writeCard_loop.simps compareUID_loop.simps

text \<open>
  Three values 1, 2, 3 entered against the default combination: a fourth card reading 4
  gives success, one reading 9 gives failure.
\<close>

theorem puzzle_evaluation_witness:
  "wf_state (entered_so_far [1, 2, 3, 0, 0, 0, 0, 0, 0, 0] 3) \<and>
   currentMode (entered_so_far [1, 2, 3, 0, 0, 0, 0, 0, 0, 0] 3) = PUZZLE \<and>
   out (puzzleLoop (entered_so_far [1, 2, 3, 0, 0, 0, 0, 0, 0, 0] 3) (placed 100 (tag 1) 4)) =
     [Tone 1500 100, AnimateCardRead 4 4, ShowProgressBar 4 4,
      AnimateSuccess, RelayHigh, Delay 3000, RelayLow, ClearStrip] \<and>
   currentIndex (puzzleLoop (entered_so_far [1, 2, 3, 0, 0, 0, 0, 0, 0, 0] 3) (placed 100 (tag 1) 4)) = 0 \<and>
   out (puzzleLoop (entered_so_far [1, 2, 3, 0, 0, 0, 0, 0, 0, 0] 3) (placed 100 (tag 1) 9)) =
     [Tone 1500 100, AnimateCardRead 4 4, ShowProgressBar 4 4, AnimateFailure, ClearStrip] \<and>
   currentIndex (puzzleLoop (entered_so_far [1, 2, 3, 0, 0, 0, 0, 0, 0, 0] 3) (placed 100 (tag 1) 9)) = 0"
proof -
  let ?s = "entered_so_far [1, 2, 3, 0, 0, 0, 0, 0, 0, 0] 3"
  let ?good = "placed 100 (tag 1) 4"
  let ?bad = "placed 100 (tag 1) 9"
  have wf: "wf_state ?s"
    by (simp add: wf_state_def wf_core_def sample_defs MAX_CARDS_def)
  have mode: "currentMode ?s = PUZZLE" "codeLength ?s = 4"
    "correctCode ?s = [1, 2, 3, 4, 0, 0, 0, 0, 0, 0]"
    by (simp_all add: sample_defs)
  have good: "currentIndex (handleReader ?s ?good) = 4"
    "codeLength (handleReader ?s ?good) = 4"
    "out (handleReader ?s ?good) = [Tone 1500 100, AnimateCardRead 4 4, ShowProgressBar 4 4]"
    "enteredValues (handleReader ?s ?good) = [1, 2, 3, 4, 0, 0, 0, 0, 0, 0]"
    by (simp_all add: sample_defs reader_defs)
  have bad: "currentIndex (handleReader ?s ?bad) = 4"
    "codeLength (handleReader ?s ?bad) = 4"
    "out (handleReader ?s ?bad) = [Tone 1500 100, AnimateCardRead 4 4, ShowProgressBar 4 4]"
    "enteredValues (handleReader ?s ?bad) = [1, 2, 3, 9, 0, 0, 0, 0, 0, 0]"
    by (simp_all add: sample_defs reader_defs)
  have differ: "\<not> (\<forall>k. 0 \<le> k \<and> k < (4::int) \<longrightarrow>
      [1, 2, 3, 9, 0, 0, 0, 0, 0, 0] ! nat k = [1, 2, 3, 4, 0, 0, 0, 0, 0, 0 :: int] ! nat k)"
    by (auto intro!: exI [of _ 3])
  show ?thesis
    using puzzle_evaluation [of ?s ?good] puzzle_evaluation [of ?s ?bad] wf mode good bad differ
    by simp
qed

lemmas loop_defs =
  loop_def checkButtonPress_def puzzleLoop_def setComboLoop_def programmingLoop_def
  programButton_def saveComboToEEPROM_def save_loop.simps loadComboFromEEPROM_def
  load_loop.simps setup_sketch_def triggerRelay_def compare_loop.simps
  EEPROM_MAGIC_ADDR_def EEPROM_LENGTH_ADDR_def EEPROM_CODE_ADDR_def EEPROM_MAGIC_VALUE_def

subsection \<open>Index bounds\<close>

lemma loop_reader_entry:
  "loop s i =
     emit [Delay 10]
       (case currentMode (reader_entry s i) of
          PROGRAM \<Rightarrow> handleReader (reader_entry s i) i
        | SET_COMBO \<Rightarrow> setComboLoop (reader_entry s i) i
        | PUZZLE \<Rightarrow> puzzleLoop (reader_entry s i) i)"
  by (simp add: loop_def reader_entry_def Let_def programmingLoop_def programButton_frame
      split: Mode.splits)

text \<open>
  Claim C10. Between two passes of \<^verbatim>\<open>loop()\<close> the length of the combination is in
  \<open>1..MAX_CARDS\<close> and the index is in \<open>0..codeLength\<close>; no write has left an array. When a
  pass calls \<^verbatim>\<open>handleReader\<close>, the only place that writes \<^verbatim>\<open>enteredValues[currentIndex]\<close>
  or \<^verbatim>\<open>correctCode[currentIndex]\<close>, the index is at least 0 and strictly below the length,
  hence inside the arrays; when \<^verbatim>\<open>handleReader\<close> returns, the index is at most the length
  and still no write has left an array.
\<close>

theorem index_within_bounds:
  assumes "reachable e s"
  shows "(1 \<le> codeLength s \<and> codeLength s \<le> MAX_CARDS \<and>
          0 \<le> currentIndex s \<and> currentIndex s \<le> codeLength s \<and> \<not> ghost_oob s) \<and>
         (0 \<le> currentIndex (reader_entry s i) \<and>
          currentIndex (reader_entry s i) < codeLength (reader_entry s i) \<and>
          codeLength (reader_entry s i) \<le> MAX_CARDS \<and>
          in_bounds (currentIndex (reader_entry s i)) \<and>
          nat (currentIndex (reader_entry s i)) < length (enteredValues (reader_entry s i)) \<and>
          nat (currentIndex (reader_entry s i)) < length (correctCode (reader_entry s i))) \<and>
         (0 \<le> currentIndex (handleReader (reader_entry s i) i) \<and>
          currentIndex (handleReader (reader_entry s i) i)
            \<le> codeLength (handleReader (reader_entry s i) i) \<and>
          1 \<le> codeLength (handleReader (reader_entry s i) i) \<and>
          codeLength (handleReader (reader_entry s i) i) \<le> MAX_CARDS \<and>
          \<not> ghost_oob (handleReader (reader_entry s i) i))"
proof -
  have s: "wf_state s" by (rule reachable_wf [OF assms])
  then have r: "wf_state (reader_entry s i)" by (rule wf_reader_entry)
  have h: "wf_core (handleReader (reader_entry s i) i) \<and>
      currentIndex (handleReader (reader_entry s i) i) \<le> codeLength (reader_entry s i)"
    using wf_handleReader [of "reader_entry s i" i] r by (simp add: wf_state_def)
  have first: "1 \<le> codeLength s \<and> codeLength s \<le> MAX_CARDS \<and>
          0 \<le> currentIndex s \<and> currentIndex s \<le> codeLength s \<and> \<not> ghost_oob s"
    using s by (simp add: wf_state_def wf_core_def)
  have second: "0 \<le> currentIndex (reader_entry s i) \<and>
          currentIndex (reader_entry s i) < codeLength (reader_entry s i) \<and>
          codeLength (reader_entry s i) \<le> MAX_CARDS \<and>
          in_bounds (currentIndex (reader_entry s i)) \<and>
          nat (currentIndex (reader_entry s i)) < length (enteredValues (reader_entry s i)) \<and>
          nat (currentIndex (reader_entry s i)) < length (correctCode (reader_entry s i))"
    using r by (auto simp: wf_state_def wf_core_def in_bounds_def MAX_CARDS_def)
  have third: "0 \<le> currentIndex (handleReader (reader_entry s i) i) \<and>
          currentIndex (handleReader (reader_entry s i) i)
            \<le> codeLength (handleReader (reader_entry s i) i) \<and>
          1 \<le> codeLength (handleReader (reader_entry s i) i) \<and>
          codeLength (handleReader (reader_entry s i) i) \<le> MAX_CARDS \<and>
          \<not> ghost_oob (handleReader (reader_entry s i) i)"
    using h by (simp add: wf_core_def handleReader_frame)
  show ?thesis using first second third by blast
qed

text \<open>
  After a long hold and one card in SetCombo mode, the card taken off again, on the pass
  that reads the second card: the index is 1 before the write and 2 after it, the length
  is 4.
\<close>

theorem index_within_bounds_witness:
  "reachable blank_eeprom (run (setup_sketch blank_eeprom) first_card_removed) \<and>
   currentIndex (run (setup_sketch blank_eeprom) first_card_removed) = 1 \<and>
   codeLength (run (setup_sketch blank_eeprom) first_card_removed) = 4 \<and>
   in_bounds (currentIndex (reader_entry (run (setup_sketch blank_eeprom) first_card_removed)
                (placed 5300 (tag 2) 6))) \<and>
   currentIndex (handleReader
       (reader_entry (run (setup_sketch blank_eeprom) first_card_removed) (placed 5300 (tag 2) 6))
       (placed 5300 (tag 2) 6)) = 2 \<and>
   currentIndex (handleReader
       (reader_entry (run (setup_sketch blank_eeprom) first_card_removed) (placed 5300 (tag 2) 6))
       (placed 5300 (tag 2) 6))
     \<le> codeLength (handleReader
       (reader_entry (run (setup_sketch blank_eeprom) first_card_removed) (placed 5300 (tag 2) 6))
       (placed 5300 (tag 2) 6)) \<and>
   \<not> ghost_oob (handleReader
       (reader_entry (run (setup_sketch blank_eeprom) first_card_removed) (placed 5300 (tag 2) 6))
       (placed 5300 (tag 2) 6))"
proof -
  let ?s = "run (setup_sketch blank_eeprom) first_card_removed"
  let ?i = "placed 5300 (tag 2) 6"
  have r: "reachable blank_eeprom ?s"
    by (rule reachable_run [OF reachable_setup])
  have v: "currentIndex ?s = 1" "codeLength ?s = 4"
    "currentIndex (handleReader (reader_entry ?s ?i) ?i) = 2"
    by (simp_all add: sample_defs reader_defs loop_defs reader_entry_def)
  show ?thesis
    using index_within_bounds [OF r, of ?i] r v by simp
qed

subsection \<open>The card dispatcher\<close>

lemma onNewCard_frame:
  "cardCurrentlyPresent (onNewCard u r s) = cardCurrentlyPresent s"
  "ghost_events (onNewCard u r s) = ghost_events s + 1"
  "lastCardCheckTime (onNewCard u r s) = lastCardCheckTime s"
  by (auto simp: onNewCard_def Let_def emit_def store_entered_def store_code_def
      split: prod.splits bool.splits)

lemma handleReader_events:
  "ghost_events (handleReader s i) =
     ghost_events s +
     (if polls s i \<and> \<not> cardCurrentlyPresent s \<and>
         (\<exists>u. card i = Some u \<and>
              \<not> compareUID (uidByte u) (uid_size u) (lastUID s) (lastUIDSize s))
      then 1 else 0)"
  by (auto simp: handleReader_def polls_def Let_def onNewCard_frame split: option.splits)

lemma handleReader_absent:
  "polls s i \<Longrightarrow> card i = None \<Longrightarrow> cardCurrentlyPresent s \<Longrightarrow>
   \<not> cardCurrentlyPresent (handleReader s i) \<and> lastUIDSize (handleReader s i) = 0"
  by (simp add: handleReader_def polls_def Let_def)

lemma handleReader_present:
  "cardCurrentlyPresent s \<Longrightarrow> card i \<noteq> None \<Longrightarrow>
   cardCurrentlyPresent (handleReader s i) \<and> ghost_events (handleReader s i) = ghost_events s"
  by (auto simp: handleReader_def Let_def split: option.splits)

lemma compareUID_empty: "uid_size u \<noteq> 0 \<longleftrightarrow> \<not> compareUID (uidByte u) (uid_size u) l 0"
  by (auto simp: compareUID_def compareUID_loop.simps)

lemma handleReader_edge:
  assumes "\<not> cardCurrentlyPresent s" "lastUIDSize s = 0" "polls s i" "card i = Some u"
    "uid_size u \<noteq> 0"
  shows "cardCurrentlyPresent (handleReader s i) \<and>
         ghost_events (handleReader s i) = ghost_events s + 1"
  using assms compareUID_empty [of u "lastUID s"]
  by (simp add: handleReader_def polls_def Let_def onNewCard_frame)

lemma reader_entry_frame:
  "cardCurrentlyPresent (reader_entry s i) = cardCurrentlyPresent s"
  "lastUIDSize (reader_entry s i) = lastUIDSize s"
  "lastUID (reader_entry s i) = lastUID s"
  "ghost_events (reader_entry s i) = ghost_events s"
  "polls (reader_entry s i) j = polls s j"
  by (simp_all add: reader_entry_def Let_def polls_def checkButtonPress_frame programButton_frame)

lemma puzzleLoop_dispatcher:
  "cardCurrentlyPresent (puzzleLoop s i) = cardCurrentlyPresent (handleReader s i)"
  "ghost_events (puzzleLoop s i) = ghost_events (handleReader s i)"
  "lastUIDSize (puzzleLoop s i) = lastUIDSize (handleReader s i)"
  by (simp_all add: puzzleLoop_def Let_def emit_def triggerRelay_def)

lemma setComboLoop_dispatcher:
  "cardCurrentlyPresent (setComboLoop s i) = cardCurrentlyPresent (handleReader s i)"
  "ghost_events (setComboLoop s i) = ghost_events (handleReader s i)"
  by (simp_all add: setComboLoop_def Let_def emit_def saveComboToEEPROM_def)

lemma loop_dispatcher:
  "cardCurrentlyPresent (loop s i) = cardCurrentlyPresent (handleReader (reader_entry s i) i)"
  "ghost_events (loop s i) = ghost_events (handleReader (reader_entry s i) i)"
  by (simp_all add: loop_reader_entry emit_def puzzleLoop_dispatcher setComboLoop_dispatcher
      split: Mode.splits)

lemma loop_present:
  assumes "cardCurrentlyPresent s" "card i \<noteq> None"
  shows "cardCurrentlyPresent (loop s i) \<and> ghost_events (loop s i) = ghost_events s"
  using handleReader_present [of "reader_entry s i" i] assms
  by (simp add: loop_dispatcher reader_entry_frame)

lemma loop_edge:
  assumes "\<not> cardCurrentlyPresent s" "lastUIDSize s = 0" "polls s i" "card i = Some u"
    "uid_size u \<noteq> 0"
  shows "cardCurrentlyPresent (loop s i) \<and> ghost_events (loop s i) = ghost_events s + 1"
  using handleReader_edge [of "reader_entry s i" i u] assms
  by (simp add: loop_dispatcher reader_entry_frame)

lemma run_present:
  "cardCurrentlyPresent s \<Longrightarrow> \<forall>j \<in> set ins. card j \<noteq> None \<Longrightarrow>
   ghost_events (run s ins) = ghost_events s"
proof (induction ins arbitrary: s)
  case Nil
  show ?case by simp
next
  case (Cons j ins)
  have step: "cardCurrentlyPresent (loop s j) \<and> ghost_events (loop s j) = ghost_events s"
    using Cons.prems by (intro loop_present) simp_all
  then have "ghost_events (run (loop s j) ins) = ghost_events (loop s j)"
    using Cons.prems by (intro Cons.IH) simp_all
  then show ?case using step by simp
qed

lemma compareUID_zero [simp]: "compareUID (uidByte u) (uid_size u) l 0 \<longleftrightarrow> uid_size u = 0"
  using compareUID_empty [of u l] by blast

lemma compareUID_both_empty [simp]: "compareUID a 0 b 0"
  by (simp add: compareUID_def compareUID_loop.simps)

lemma card_arrives_frame: "card_arrives (reader_entry s i) j = card_arrives s j"
  by (simp add: card_arrives_def reader_entry_frame)

lemma handleReader_events_wf:
  assumes "wf_core s"
  shows "ghost_events (handleReader s i) = ghost_events s + (if card_arrives s i then 1 else 0)"
proof (cases "cardCurrentlyPresent s")
  case True
  then show ?thesis
    using handleReader_events [of s i] by (simp add: card_arrives_def)
next
  case False
  then have "lastUIDSize s = 0" using assms by (simp add: wf_core_def)
  then show ?thesis
    using handleReader_events [of s i] False
    by (cases "card i") (simp_all add: card_arrives_def)
qed

lemma loop_events:
  assumes "reachable e s"
  shows "ghost_events (loop s i) = ghost_events s + (if card_arrives s i then 1 else 0)"
proof -
  have "wf_core (reader_entry s i)"
    using wf_reader_entry [OF reachable_wf [OF assms], of i] by (simp add: wf_state_def)
  then show ?thesis
    using handleReader_events_wf [of "reader_entry s i" i]
    by (simp add: loop_dispatcher card_arrives_frame reader_entry_frame)
qed

lemma loop_arrival:
  assumes "reachable e s" "card_arrives s i"
  shows "cardCurrentlyPresent (loop s i)"
proof -
  obtain u where u: "card i = Some u" "uid_size u \<noteq> 0"
    using assms(2) by (cases "card i") (simp_all add: card_arrives_def)
  have "lastUIDSize s = 0"
    using reachable_wf [OF assms(1)] assms(2)
    by (simp add: wf_state_def wf_core_def card_arrives_def)
  then show ?thesis
    using loop_edge [of s i u] assms(2) u by (simp add: card_arrives_def)
qed

lemma run_arrival:
  assumes "reachable e s" "card_arrives s i" "\<forall>j \<in> set ins. card j \<noteq> None"
  shows "ghost_events (run s (i # ins)) = ghost_events s + 1"
proof -
  have "ghost_events (run (loop s i) ins) = ghost_events (loop s i)"
    using loop_arrival [OF assms(1,2)] assms(3) by (intro run_present) simp_all
  then show ?thesis
    using loop_events [OF assms(1), of i] assms(2) by simp
qed

subsection \<open>The combination in memory and in storage\<close>

lemma persisted_matches_cong:
  "eeprom s' = eeprom s \<Longrightarrow> codeLength s' = codeLength s \<Longrightarrow> correctCode s' = correctCode s \<Longrightarrow>
   persisted_matches s' = persisted_matches s"
  by (simp add: persisted_matches_def)

lemma combo_synced_cong:
  "eeprom s' = eeprom s \<Longrightarrow> codeLength s' = codeLength s \<Longrightarrow> correctCode s' = correctCode s \<Longrightarrow>
   combo_synced e s' = combo_synced e s"
  by (simp add: combo_synced_def persisted_matches_cong [of s' s])

lemma uint_byte_of_int: "0 \<le> v \<Longrightarrow> v \<le> 255 \<Longrightarrow> uint (word_of_int v :: byte) = v"
  by (simp add: uint_word_of_int)

lemma persisted_after_save:
  assumes "wf_core s"
  shows "persisted_matches (saveComboToEEPROM s)"
proof -
  let ?e = "eeprom (saveComboToEEPROM s)"
  have n: "1 \<le> codeLength s" "codeLength s \<le> 10" "length (correctCode s) = 10"
    using assms by (simp_all add: wf_core_def MAX_CARDS_def)
  have magic: "?e 0 = EEPROM_MAGIC_VALUE"
    by (simp add: saveComboToEEPROM_def save_loop_apply EEPROM_CODE_ADDR_def
        EEPROM_MAGIC_ADDR_def EEPROM_LENGTH_ADDR_def)
  have len: "uint (?e 1) = codeLength s"
    using n by (simp add: saveComboToEEPROM_def save_loop_apply EEPROM_CODE_ADDR_def
        EEPROM_MAGIC_ADDR_def EEPROM_LENGTH_ADDR_def uint_byte_of_int)
  have val: "uint (?e (2 + k)) = correctCode s ! nat k" if "0 \<le> k" "k < codeLength s" for k
  proof -
    have "nat k < length (correctCode s)" using that n by simp
    then have "correctCode s ! nat k \<in> set (correctCode s)" by (rule nth_mem)
    then have "0 \<le> correctCode s ! nat k \<and> correctCode s ! nat k \<le> 255"
      using assms by (simp add: wf_core_def)
    then show ?thesis
      using that by (simp add: saveComboToEEPROM_def save_loop_apply EEPROM_CODE_ADDR_def
          uint_byte_of_int)
  qed
  show ?thesis
    using magic len val by (simp add: persisted_matches_def saveComboToEEPROM_def)
qed

lemma setComboLoop_completes:
  assumes "wf_state s" and "codeLength s \<le> currentIndex (handleReader s i)"
  shows "persisted_matches (setComboLoop s i) \<and> currentMode (setComboLoop s i) = PUZZLE \<and>
         currentIndex (setComboLoop s i) = 0 \<and> codeLength (setComboLoop s i) = codeLength s \<and>
         correctCode (setComboLoop s i) = correctCode (handleReader s i)"
proof -
  let ?h = "handleReader s i"
  have wf: "wf_core ?h"
    using wf_handleReader [of s i] assms(1) by (simp add: wf_state_def)
  have "persisted_matches (setComboLoop s i) = persisted_matches (saveComboToEEPROM ?h)"
    using assms(2)
    by (intro persisted_matches_cong)
      (simp_all add: setComboLoop_def Let_def emit_def handleReader_frame saveComboToEEPROM_def)
  then show ?thesis
    using persisted_after_save [OF wf] assms(2)
    by (simp add: setComboLoop_def Let_def emit_def handleReader_frame saveComboToEEPROM_def)
qed

lemma setComboLoop_continues:
  "\<not> codeLength s \<le> currentIndex (handleReader s i) \<Longrightarrow> setComboLoop s i = handleReader s i"
  by (simp add: setComboLoop_def Let_def handleReader_frame)

lemma handleReader_code_written:
  assumes "wf_state s" and "currentMode s = SET_COMBO"
  shows "correctCode (handleReader s i) =
           (if card_arrives s i \<and> fst (readCard (rfid i))
            then (correctCode s)[nat (currentIndex s) := uint (fst (snd (readCard (rfid i))))]
            else correctCode s)"
proof (cases "cardCurrentlyPresent s")
  case True
  then show ?thesis
    by (cases "card i") (simp_all add: handleReader_def card_arrives_def Let_def)
next
  case False
  then have empty: "lastUIDSize s = 0"
    using assms(1) by (simp add: wf_state_def wf_core_def)
  have idx: "in_bounds (currentIndex s)"
    using assms(1) by (simp add: wf_state_def wf_core_def in_bounds_def)
  obtain ok v es where rd: "readCard (rfid i) = (ok, v, es)"
    by (cases "readCard (rfid i)") auto
  show ?thesis
  proof (cases "card i")
    case None
    then show ?thesis
      using False by (simp add: handleReader_def card_arrives_def Let_def)
  next
    case (Some u)
    then show ?thesis
      using False empty idx rd assms(2)
      by (cases ok)
        (simp_all add: handleReader_def onNewCard_def card_arrives_def polls_def Let_def
          emit_def store_code_def)
  qed
qed

lemma checkButtonPress_mode:
  "currentMode s = SET_COMBO \<Longrightarrow> currentMode (checkButtonPress s i) = SET_COMBO"
  "currentMode (checkButtonPress s i) = PUZZLE \<Longrightarrow> currentMode s = PUZZLE"
  by (auto simp: checkButtonPress_def Let_def emit_def triggerRelay_def split: if_splits)

lemma puzzleLoop_frame:
  "currentMode s = PUZZLE \<Longrightarrow> correctCode (puzzleLoop s i) = correctCode s"
  "codeLength (puzzleLoop s i) = codeLength s"
  "eeprom (puzzleLoop s i) = eeprom s"
  "currentMode (puzzleLoop s i) = currentMode s"
  by (simp_all add: puzzleLoop_def Let_def emit_def triggerRelay_def handleReader_frame
      handleReader_code_frame)

lemma programmingLoop_frame:
  "currentMode s = PROGRAM \<Longrightarrow> correctCode (programmingLoop s i) = correctCode s"
  "codeLength (programmingLoop s i) = codeLength s"
  "eeprom (programmingLoop s i) = eeprom s"
  "currentMode (programmingLoop s i) = currentMode s"
  by (simp_all add: programmingLoop_def handleReader_frame handleReader_code_frame
      programButton_frame)

lemma loop_outside_set_combo:
  assumes "currentMode (checkButtonPress s i) \<noteq> SET_COMBO"
  shows "correctCode (loop s i) = correctCode s \<and> codeLength (loop s i) = codeLength s \<and>
         eeprom (loop s i) = eeprom s \<and> currentMode (loop s i) \<noteq> SET_COMBO"
  using assms
  by (cases "currentMode (checkButtonPress s i)")
    (simp_all add: loop_def Let_def emit_def puzzleLoop_frame programmingLoop_frame
      checkButtonPress_frame)

lemma loop_in_set_combo:
  assumes "currentMode (checkButtonPress s i) = SET_COMBO"
  shows "correctCode (loop s i) = correctCode (setComboLoop (checkButtonPress s i) i) \<and>
         codeLength (loop s i) = codeLength (setComboLoop (checkButtonPress s i) i) \<and>
         eeprom (loop s i) = eeprom (setComboLoop (checkButtonPress s i) i) \<and>
         currentMode (loop s i) = currentMode (setComboLoop (checkButtonPress s i) i) \<and>
         currentIndex (loop s i) = currentIndex (setComboLoop (checkButtonPress s i) i)"
  using assms by (simp add: loop_def Let_def emit_def)

lemma setup_synced: "combo_synced e (setup_sketch e)"
proof (cases "record_valid e")
  case True
  then show ?thesis
    using setup_valid [OF True]
    by (simp add: combo_synced_def persisted_matches_def setup_frame record_valid_def)
next
  case False
  then show ?thesis
    using setup_invalid [OF False] by (simp add: combo_synced_def setup_frame)
qed

lemma reachable_synced:
  "reachable e s \<Longrightarrow> currentMode s \<noteq> SET_COMBO \<Longrightarrow> combo_synced e s"
proof (induction rule: reachable.induct)
  case reachable_setup
  show ?case by (rule setup_synced)
next
  case (reachable_loop s i)
  let ?b = "checkButtonPress s i"
  show ?case
  proof (cases "currentMode ?b = SET_COMBO")
    case False
    then have "currentMode s \<noteq> SET_COMBO"
      using checkButtonPress_mode(1) [of s i] by blast
    then have "combo_synced e s" by (rule reachable_loop.IH)
    then show ?thesis
      using loop_outside_set_combo [OF False] combo_synced_cong [of "loop s i" s e] by simp
  next
    case True
    have wf: "wf_state ?b"
      by (rule wf_checkButtonPress [OF reachable_wf [OF reachable_loop.hyps]])
    have full: "codeLength ?b \<le> currentIndex (handleReader ?b i)"
    proof (rule ccontr)
      assume "\<not> codeLength ?b \<le> currentIndex (handleReader ?b i)"
      then have "setComboLoop ?b i = handleReader ?b i" by (rule setComboLoop_continues)
      then have "currentMode (loop s i) = SET_COMBO"
        using loop_in_set_combo [OF True] True by (simp add: handleReader_frame)
      then show False using reachable_loop.prems by simp
    qed
    have "persisted_matches (setComboLoop ?b i)"
      using setComboLoop_completes [OF wf full] by simp
    then have "persisted_matches (loop s i)"
      using loop_in_set_combo [OF True] persisted_matches_cong [of "loop s i" "setComboLoop ?b i"]
      by simp
    then show ?thesis by (simp add: combo_synced_def)
  qed
qed

text \<open>
  Claim C2, as stated, fails: \<^verbatim>\<open>handleReader\<close> stores each value read in SetCombo mode
  directly into \<^verbatim>\<open>correctCode\<close>. Over an EEPROM that holds the record of 1, 2, 3, 4, after a
  long hold and one card reading 5, the combination in memory starts with 5 while the
  sequence is incomplete (one value of four) and the EEPROM is as it was.
\<close>

theorem combination_changes_before_completion:
  "reachable stored_1234 (run (setup_sketch stored_1234) hold_then_first_card) \<and>
   persisted_matches (setup_sketch stored_1234) \<and>
   correctCode (setup_sketch stored_1234) = [1, 2, 3, 4, 0, 0, 0, 0, 0, 0] \<and>
   currentMode (run (setup_sketch stored_1234) hold_then_first_card) = SET_COMBO \<and>
   currentIndex (run (setup_sketch stored_1234) hold_then_first_card) = 1 \<and>
   codeLength (run (setup_sketch stored_1234) hold_then_first_card) = 4 \<and>
   correctCode (run (setup_sketch stored_1234) hold_then_first_card)
     = [5, 2, 3, 4, 0, 0, 0, 0, 0, 0] \<and>
   eeprom (run (setup_sketch stored_1234) hold_then_first_card) = stored_1234 \<and>
   \<not> persisted_matches (run (setup_sketch stored_1234) hold_then_first_card)"
proof -
  let ?s = "run (setup_sketch stored_1234) hold_then_first_card"
  have r: "reachable stored_1234 ?s"
    by (rule reachable_run [OF reachable_setup])
  have valid: "record_valid stored_1234"
    by (simp add: record_valid_def stored_1234_def EEPROM_MAGIC_VALUE_def)
  have "combo_synced stored_1234 (setup_sketch stored_1234)" by (rule setup_synced)
  then have p0: "persisted_matches (setup_sketch stored_1234)"
    using valid by (simp add: combo_synced_def)
  have c0: "correctCode (setup_sketch stored_1234) = [1, 2, 3, 4, 0, 0, 0, 0, 0, 0]"
    by (simp add: sample_defs reader_defs loop_defs)
  have v: "currentMode ?s = SET_COMBO" "currentIndex ?s = 1" "codeLength ?s = 4"
    "correctCode ?s = [5, 2, 3, 4, 0, 0, 0, 0, 0, 0]" "eeprom ?s = stored_1234"
    by (simp_all add: sample_defs reader_defs loop_defs)
  have "uint (eeprom ?s (2 + 0)) \<noteq> correctCode ?s ! nat 0"
    by (simp add: v) (simp add: stored_1234_def)
  then have "\<not> persisted_matches ?s"
    unfolding persisted_matches_def using v(3) by (metis order_refl zero_less_numeral)
  then show ?thesis using r p0 c0 v by simp
qed

text \<open>
  Claim C2, amended. The combination and the EEPROM change only in passes that run in
  SetCombo mode. There, a pass in which a card arrives and is read with success overwrites
  position \<^verbatim>\<open>currentIndex\<close> of the combination with the value read, at once and before the
  sequence is complete; any other pass leaves the combination as it is. The EEPROM is
  written only by the pass that completes the sequence, after which the record matches the
  combination in memory and the mode is Puzzle. Consequently, in every reachable state
  whose mode is not SetCombo the combination in memory equals the persisted record, or the
  storage is still the invalid content found at power-up and the combination is the
  default.
\<close>

theorem combination_persistence:
  assumes "reachable e s"
  shows "(currentMode (checkButtonPress s i) \<noteq> SET_COMBO \<longrightarrow>
            correctCode (loop s i) = correctCode s \<and> codeLength (loop s i) = codeLength s \<and>
            eeprom (loop s i) = eeprom s) \<and>
         (currentMode (checkButtonPress s i) = SET_COMBO \<longrightarrow>
            correctCode (loop s i) =
              (if card_arrives s i \<and> fst (readCard (rfid i))
               then (correctCode s)[nat (currentIndex (checkButtonPress s i))
                                      := uint (fst (snd (readCard (rfid i))))]
               else correctCode s) \<and>
            (if codeLength s \<le> currentIndex (handleReader (checkButtonPress s i) i)
             then persisted_matches (loop s i) \<and> currentMode (loop s i) = PUZZLE
             else eeprom (loop s i) = eeprom s \<and> currentMode (loop s i) = SET_COMBO)) \<and>
         (currentMode s \<noteq> SET_COMBO \<longrightarrow> combo_synced e s)"
proof -
  let ?b = "checkButtonPress s i"
  have wf: "wf_state ?b"
    by (rule wf_checkButtonPress [OF reachable_wf [OF assms]])
  have arrives: "card_arrives ?b i = card_arrives s i"
    by (simp add: card_arrives_def polls_def checkButtonPress_frame)
  have outside: "correctCode (loop s i) = correctCode s \<and> codeLength (loop s i) = codeLength s \<and>
      eeprom (loop s i) = eeprom s" if "currentMode ?b \<noteq> SET_COMBO"
    using loop_outside_set_combo [OF that] by simp
  have inside: "correctCode (loop s i) =
              (if card_arrives s i \<and> fst (readCard (rfid i))
               then (correctCode s)[nat (currentIndex ?b) := uint (fst (snd (readCard (rfid i))))]
               else correctCode s) \<and>
            (if codeLength s \<le> currentIndex (handleReader ?b i)
             then persisted_matches (loop s i) \<and> currentMode (loop s i) = PUZZLE
             else eeprom (loop s i) = eeprom s \<and> currentMode (loop s i) = SET_COMBO)"
    if m: "currentMode ?b = SET_COMBO"
  proof -
    have written: "correctCode (handleReader ?b i) =
              (if card_arrives s i \<and> fst (readCard (rfid i))
               then (correctCode s)[nat (currentIndex ?b) := uint (fst (snd (readCard (rfid i))))]
               else correctCode s)"
      using handleReader_code_written [OF wf m, of i]
      by (simp add: arrives checkButtonPress_frame)
    show ?thesis
    proof (cases "codeLength ?b \<le> currentIndex (handleReader ?b i)")
      case True
      have c: "persisted_matches (setComboLoop ?b i)" "currentMode (setComboLoop ?b i) = PUZZLE"
        "correctCode (setComboLoop ?b i) = correctCode (handleReader ?b i)"
        using setComboLoop_completes [OF wf True] by simp_all
      have p: "persisted_matches (loop s i)"
        using loop_in_set_combo [OF m] c(1)
          persisted_matches_cong [of "loop s i" "setComboLoop ?b i"] by simp
      have "correctCode (loop s i) = correctCode (handleReader ?b i)"
        using loop_in_set_combo [OF m] c(3) by simp
      then show ?thesis
        using True p loop_in_set_combo [OF m] c(2) written
        by (simp add: checkButtonPress_frame)
    next
      case False
      then have eq: "setComboLoop ?b i = handleReader ?b i" by (rule setComboLoop_continues)
      have "correctCode (loop s i) = correctCode (handleReader ?b i)"
        using loop_in_set_combo [OF m] eq by simp
      then show ?thesis
        using False m loop_in_set_combo [OF m] eq written
        by (simp add: checkButtonPress_frame handleReader_frame)
    qed
  qed
  show ?thesis
    using outside inside reachable_synced [OF assms] by (intro conjI impI) simp_all
qed

text \<open>
  Over the record of 1, 2, 3, 4, one card reading 5 entered in SetCombo mode and taken off:
  the pass that reads a second card holding 6 turns the combination 5, 2, 3, 4 in memory
  into 5, 6, 3, 4, leaves the EEPROM alone and stays in SetCombo mode; a pass without a card
  leaves the combination as it is. After the whole session over an erased EEPROM, back in
  Puzzle mode, memory and storage agree.
\<close>

theorem combination_persistence_witness:
  "reachable stored_1234 (run (setup_sketch stored_1234) first_card_removed) \<and>
   currentMode (checkButtonPress (run (setup_sketch stored_1234) first_card_removed)
                  (placed 5300 (tag 2) 6)) = SET_COMBO \<and>
   correctCode (run (setup_sketch stored_1234) first_card_removed)
     = [5, 2, 3, 4, 0, 0, 0, 0, 0, 0] \<and>
   correctCode (loop (run (setup_sketch stored_1234) first_card_removed) (placed 5300 (tag 2) 6))
     = [5, 6, 3, 4, 0, 0, 0, 0, 0, 0] \<and>
   correctCode (loop (run (setup_sketch stored_1234) first_card_removed) (quiet 5300))
     = [5, 2, 3, 4, 0, 0, 0, 0, 0, 0] \<and>
   eeprom (loop (run (setup_sketch stored_1234) first_card_removed) (placed 5300 (tag 2) 6))
     = stored_1234 \<and>
   currentMode (loop (run (setup_sketch stored_1234) first_card_removed) (placed 5300 (tag 2) 6))
     = SET_COMBO \<and>
   reachable blank_eeprom (run (setup_sketch blank_eeprom) set_combo_session) \<and>
   currentMode (run (setup_sketch blank_eeprom) set_combo_session) = PUZZLE \<and>
   combo_synced blank_eeprom (run (setup_sketch blank_eeprom) set_combo_session)"
proof -
  let ?s = "run (setup_sketch stored_1234) first_card_removed"
  let ?i = "placed 5300 (tag 2) 6"
  let ?q = "quiet 5300"
  let ?f = "run (setup_sketch blank_eeprom) set_combo_session"
  have r: "reachable stored_1234 ?s" "reachable blank_eeprom ?f"
    by (rule reachable_run [OF reachable_setup])+
  have v: "currentMode (checkButtonPress ?s ?i) = SET_COMBO" "codeLength ?s = 4"
    "currentIndex (handleReader (checkButtonPress ?s ?i) ?i) = 2" "eeprom ?s = stored_1234"
    "correctCode ?s = [5, 2, 3, 4, 0, 0, 0, 0, 0, 0]" "currentIndex (checkButtonPress ?s ?i) = 1"
    "card_arrives ?s ?i" "readCard (rfid ?i) = (True, 6, [])"
    by (simp_all add: card_arrives_def polls_def sample_defs reader_defs loop_defs)
  have w: "currentMode (checkButtonPress ?s ?q) = SET_COMBO" "\<not> card_arrives ?s ?q"
    by (simp_all add: card_arrives_def polls_def sample_defs reader_defs loop_defs)
  have f: "currentMode ?f = PUZZLE"
    by (simp add: sample_defs reader_defs loop_defs)
  show ?thesis
    using combination_persistence [OF r(1), of ?i] combination_persistence [OF r(1), of ?q]
      combination_persistence [OF r(2)] r v w f
    by simp
qed

subsection \<open>Completing a new combination\<close>

lemma setComboLoop_length: "codeLength (setComboLoop s i) = codeLength s"
  by (simp add: setComboLoop_def Let_def emit_def saveComboToEEPROM_def handleReader_frame)

lemma loop_length: "codeLength (loop s i) = codeLength s"
  by (cases "currentMode (checkButtonPress s i)")
    (simp_all add: loop_def Let_def emit_def puzzleLoop_frame programmingLoop_frame
      setComboLoop_length checkButtonPress_frame)

text \<open>
  Claim C4. No pass of \<^verbatim>\<open>loop()\<close> changes the length of the combination. The pass of
  SetCombo mode that completes the sequence writes the sentinel, the unchanged length and
  the new values to the EEPROM, resets the index to 0 and sets the mode to Puzzle. From
  power-up with the default combination of length 4, a long hold and four cards reading
  5, 6, 7, 8 leave the record \<open>0x42, 4, 5, 6, 7, 8\<close>, index 0 and mode Puzzle.
\<close>

theorem set_combo_completion:
  "codeLength (loop s i) = codeLength s \<and>
   (wf_state s \<and> currentMode s = SET_COMBO \<and> codeLength s \<le> currentIndex (handleReader s i) \<longrightarrow>
      codeLength (setComboLoop s i) = codeLength s \<and>
      eeprom (setComboLoop s i) 0 = EEPROM_MAGIC_VALUE \<and>
      uint (eeprom (setComboLoop s i) 1) = codeLength s \<and>
      (\<forall>k. 0 \<le> k \<and> k < codeLength s \<longrightarrow>
          uint (eeprom (setComboLoop s i) (2 + k)) = correctCode (handleReader s i) ! nat k) \<and>
      correctCode (setComboLoop s i) = correctCode (handleReader s i) \<and>
      currentIndex (setComboLoop s i) = 0 \<and>
      currentMode (setComboLoop s i) = PUZZLE) \<and>
   (reachable blank_eeprom (run (setup_sketch blank_eeprom) set_combo_session) \<and>
    codeLength (setup_sketch blank_eeprom) = 4 \<and>
    currentMode (run (setup_sketch blank_eeprom) first_card_removed) = SET_COMBO \<and>
    codeLength (run (setup_sketch blank_eeprom) set_combo_session) = 4 \<and>
    correctCode (run (setup_sketch blank_eeprom) set_combo_session)
      = [5, 6, 7, 8, 0, 0, 0, 0, 0, 0] \<and>
    eeprom (run (setup_sketch blank_eeprom) set_combo_session) 0 = 0x42 \<and>
    eeprom (run (setup_sketch blank_eeprom) set_combo_session) 1 = 4 \<and>
    eeprom (run (setup_sketch blank_eeprom) set_combo_session) 2 = 5 \<and>
    eeprom (run (setup_sketch blank_eeprom) set_combo_session) 3 = 6 \<and>
    eeprom (run (setup_sketch blank_eeprom) set_combo_session) 4 = 7 \<and>
    eeprom (run (setup_sketch blank_eeprom) set_combo_session) 5 = 8 \<and>
    currentIndex (run (setup_sketch blank_eeprom) set_combo_session) = 0 \<and>
    currentMode (run (setup_sketch blank_eeprom) set_combo_session) = PUZZLE)"
proof -
  have general: "codeLength (setComboLoop s i) = codeLength s \<and>
      eeprom (setComboLoop s i) 0 = EEPROM_MAGIC_VALUE \<and>
      uint (eeprom (setComboLoop s i) 1) = codeLength s \<and>
      (\<forall>k. 0 \<le> k \<and> k < codeLength s \<longrightarrow>
          uint (eeprom (setComboLoop s i) (2 + k)) = correctCode (handleReader s i) ! nat k) \<and>
      correctCode (setComboLoop s i) = correctCode (handleReader s i) \<and>
      currentIndex (setComboLoop s i) = 0 \<and>
      currentMode (setComboLoop s i) = PUZZLE"
    if "wf_state s" "codeLength s \<le> currentIndex (handleReader s i)"
    using setComboLoop_completes [OF that] by (simp add: persisted_matches_def)
  have r: "reachable blank_eeprom (run (setup_sketch blank_eeprom) set_combo_session)"
    by (rule reachable_run [OF reachable_setup])
  have session: "codeLength (setup_sketch blank_eeprom) = 4"
    "currentMode (run (setup_sketch blank_eeprom) first_card_removed) = SET_COMBO"
    "codeLength (run (setup_sketch blank_eeprom) set_combo_session) = 4"
    "correctCode (run (setup_sketch blank_eeprom) set_combo_session)
      = [5, 6, 7, 8, 0, 0, 0, 0, 0, 0]"
    "eeprom (run (setup_sketch blank_eeprom) set_combo_session) 0 = 0x42"
    "eeprom (run (setup_sketch blank_eeprom) set_combo_session) 1 = 4"
    "eeprom (run (setup_sketch blank_eeprom) set_combo_session) 2 = 5"
    "eeprom (run (setup_sketch blank_eeprom) set_combo_session) 3 = 6"
    "eeprom (run (setup_sketch blank_eeprom) set_combo_session) 4 = 7"
    "eeprom (run (setup_sketch blank_eeprom) set_combo_session) 5 = 8"
    "currentIndex (run (setup_sketch blank_eeprom) set_combo_session) = 0"
    "currentMode (run (setup_sketch blank_eeprom) set_combo_session) = PUZZLE"
    by (simp_all add: sample_defs reader_defs loop_defs)
  show ?thesis
    by (intro conjI impI) (use general r session loop_length [of s i] in simp_all)
qed

text \<open>
  Three new values 5, 6, 7 stored over the default combination: the pass that reads a
  fourth card holding 8 completes the sequence.
\<close>

theorem set_combo_completion_witness:
  "wf_state (combo_so_far [5, 6, 7, 4, 0, 0, 0, 0, 0, 0] 3) \<and>
   currentMode (combo_so_far [5, 6, 7, 4, 0, 0, 0, 0, 0, 0] 3) = SET_COMBO \<and>
   currentIndex (handleReader (combo_so_far [5, 6, 7, 4, 0, 0, 0, 0, 0, 0] 3)
                   (placed 100 (tag 4) 8)) = 4 \<and>
   codeLength (setComboLoop (combo_so_far [5, 6, 7, 4, 0, 0, 0, 0, 0, 0] 3)
                 (placed 100 (tag 4) 8)) = 4 \<and>
   eeprom (setComboLoop (combo_so_far [5, 6, 7, 4, 0, 0, 0, 0, 0, 0] 3)
             (placed 100 (tag 4) 8)) 0 = 0x42 \<and>
   uint (eeprom (setComboLoop (combo_so_far [5, 6, 7, 4, 0, 0, 0, 0, 0, 0] 3)
                   (placed 100 (tag 4) 8)) 1) = 4 \<and>
   uint (eeprom (setComboLoop (combo_so_far [5, 6, 7, 4, 0, 0, 0, 0, 0, 0] 3)
                   (placed 100 (tag 4) 8)) 5) = 8 \<and>
   correctCode (setComboLoop (combo_so_far [5, 6, 7, 4, 0, 0, 0, 0, 0, 0] 3)
                  (placed 100 (tag 4) 8)) = [5, 6, 7, 8, 0, 0, 0, 0, 0, 0] \<and>
   currentIndex (setComboLoop (combo_so_far [5, 6, 7, 4, 0, 0, 0, 0, 0, 0] 3)
                   (placed 100 (tag 4) 8)) = 0 \<and>
   currentMode (setComboLoop (combo_so_far [5, 6, 7, 4, 0, 0, 0, 0, 0, 0] 3)
                  (placed 100 (tag 4) 8)) = PUZZLE"
proof -
  let ?s = "combo_so_far [5, 6, 7, 4, 0, 0, 0, 0, 0, 0] 3"
  let ?i = "placed 100 (tag 4) 8"
  have wf: "wf_state ?s"
    by (simp add: wf_state_def wf_core_def sample_defs MAX_CARDS_def)
  have v: "currentMode ?s = SET_COMBO" "codeLength ?s = 4"
    "currentIndex (handleReader ?s ?i) = 4"
    "correctCode (handleReader ?s ?i) = [5, 6, 7, 8, 0, 0, 0, 0, 0, 0]"
    by (simp_all add: sample_defs reader_defs)
  have all: "codeLength (setComboLoop ?s ?i) = codeLength ?s \<and>
      eeprom (setComboLoop ?s ?i) 0 = EEPROM_MAGIC_VALUE \<and>
      uint (eeprom (setComboLoop ?s ?i) 1) = codeLength ?s \<and>
      (\<forall>k. 0 \<le> k \<and> k < codeLength ?s \<longrightarrow>
          uint (eeprom (setComboLoop ?s ?i) (2 + k)) = correctCode (handleReader ?s ?i) ! nat k) \<and>
      correctCode (setComboLoop ?s ?i) = correctCode (handleReader ?s ?i) \<and>
      currentIndex (setComboLoop ?s ?i) = 0 \<and>
      currentMode (setComboLoop ?s ?i) = PUZZLE"
    using set_combo_completion [of ?s ?i] wf v by simp
  note at3 = all [THEN conjunct2, THEN conjunct2, THEN conjunct2, THEN conjunct1,
      rule_format, of 3]
  have five: "uint (eeprom (setComboLoop ?s ?i) 5) = 8"
    using at3 v by simp
  show ?thesis
    using all wf v five by (simp add: EEPROM_MAGIC_VALUE_def)
qed

subsection \<open>Events per placement\<close>

text \<open>
  Claim C8, as stated, fails in two ways. A card that replaces another with no empty poll
  in between gets no event: \<^verbatim>\<open>handleReader\<close> skips its whole block while
  \<^verbatim>\<open>cardCurrentlyPresent\<close> is set, whichever card lies on the reader. From power-up, card 1
  is seen on one pass and card 2 on the next two passes, each of them a poll: one event in
  all, for card 1, and only its value is entered. And the identity of the preceding
  placement never holds an event back: card 1 seen, taken off and seen again gives two
  events.
\<close>

theorem swapped_card_gets_no_event:
  "reachable blank_eeprom (run (setup_sketch blank_eeprom) [placed 100 (tag 1) 1]) \<and>
   ghost_events (run (setup_sketch blank_eeprom) [placed 100 (tag 1) 1]) = 1 \<and>
   uidByte (tag 2) \<noteq> uidByte (tag 1) \<and>
   polls (run (setup_sketch blank_eeprom) [placed 100 (tag 1) 1]) (placed 130 (tag 2) 2) \<and>
   polls (run (setup_sketch blank_eeprom) [placed 100 (tag 1) 1, placed 130 (tag 2) 2])
     (placed 160 (tag 2) 2) \<and>
   ghost_events (run (setup_sketch blank_eeprom)
      [placed 100 (tag 1) 1, placed 130 (tag 2) 2, placed 160 (tag 2) 2]) = 1 \<and>
   currentIndex (run (setup_sketch blank_eeprom)
      [placed 100 (tag 1) 1, placed 130 (tag 2) 2, placed 160 (tag 2) 2]) = 1 \<and>
   ghost_events (run (setup_sketch blank_eeprom)
      [placed 100 (tag 1) 1, quiet 130, placed 160 (tag 1) 1]) = 2"
proof -
  have r: "reachable blank_eeprom (run (setup_sketch blank_eeprom) [placed 100 (tag 1) 1])"
    by (rule reachable_run [OF reachable_setup])
  show ?thesis
    using r by (simp add: polls_def sample_defs reader_defs loop_defs)
qed

text \<open>
  Claim C8, amended. \<^verbatim>\<open>handleReader\<close> handles a new card exactly when it polls, no card was
  noted as present, a card is there now, and its identifier differs in size or in one of
  its bytes from the remembered one. A poll that finds no card after one was present clears
  the presence flag and the remembered identifier, so in every reachable state with no
  card noted the remembered identifier is empty: a pass of \<^verbatim>\<open>loop()\<close> gives an event exactly
  at the edge from no card to a card (with a non-empty identifier), whatever the identity
  of that card or of the one before. A run of passes that all see a card gives exactly one
  event when it begins at such an edge, and none when it begins with a card already noted
  as present.
\<close>

theorem new_card_events:
  "ghost_events (handleReader s i) =
     ghost_events s +
     (if polls s i \<and> \<not> cardCurrentlyPresent s \<and>
         (\<exists>u. card i = Some u \<and>
              \<not> (uid_size u = lastUIDSize s \<and>
                 (\<forall>k < unat (uid_size u). uidByte u ! k = lastUID s ! k)))
      then 1 else 0) \<and>
   (polls s i \<and> card i = None \<and> cardCurrentlyPresent s \<longrightarrow>
      \<not> cardCurrentlyPresent (handleReader s i) \<and> lastUIDSize (handleReader s i) = 0) \<and>
   (reachable e s \<longrightarrow>
      (cardCurrentlyPresent s \<or> lastUIDSize s = 0) \<and>
      ghost_events (loop s i) = ghost_events s + (if card_arrives s i then 1 else 0)) \<and>
   (reachable e s \<and> card_arrives s i \<and> (\<forall>j \<in> set ins. card j \<noteq> None) \<longrightarrow>
      ghost_events (run s (i # ins)) = ghost_events s + 1) \<and>
   (cardCurrentlyPresent s \<and> (\<forall>j \<in> set ins. card j \<noteq> None) \<longrightarrow>
      ghost_events (run s ins) = ghost_events s)"
proof -
  have step: "ghost_events (handleReader s i) =
     ghost_events s +
     (if polls s i \<and> \<not> cardCurrentlyPresent s \<and>
         (\<exists>u. card i = Some u \<and>
              \<not> (uid_size u = lastUIDSize s \<and>
                 (\<forall>k < unat (uid_size u). uidByte u ! k = lastUID s ! k)))
      then 1 else 0)"
    using handleReader_events [of s i] by (simp add: compareUID_iff)
  have empty: "cardCurrentlyPresent s \<or> lastUIDSize s = 0" if "reachable e s"
    using reachable_wf [OF that] by (auto simp: wf_state_def wf_core_def)
  show ?thesis
    using step handleReader_absent [of s i] empty loop_events [of e s i]
      run_arrival [of e s i ins] run_present [of s ins]
    by (intro conjI impI) simp_all
qed

text \<open>
  From power-up: the first pass that sees card 1 gives an event, and so does the run of
  three passes that see it; a third pass seeing card 2 after two passes seeing card 1 adds
  none.
\<close>

theorem new_card_events_witness:
  "reachable blank_eeprom (setup_sketch blank_eeprom) \<and>
   card_arrives (setup_sketch blank_eeprom) (placed 100 (tag 1) 1) \<and>
   ghost_events (setup_sketch blank_eeprom) = 0 \<and>
   ghost_events (loop (setup_sketch blank_eeprom) (placed 100 (tag 1) 1)) = 1 \<and>
   ghost_events (run (setup_sketch blank_eeprom)
      [placed 100 (tag 1) 1, placed 130 (tag 1) 1, placed 160 (tag 1) 1]) = 1 \<and>
   cardCurrentlyPresent (loop (setup_sketch blank_eeprom) (placed 100 (tag 1) 1)) \<and>
   ghost_events (run (loop (setup_sketch blank_eeprom) (placed 100 (tag 1) 1))
      [placed 130 (tag 1) 1, placed 160 (tag 2) 2]) = 1"
proof -
  let ?s = "setup_sketch blank_eeprom"
  let ?i = "placed 100 (tag 1) 1"
  let ?same = "[placed 130 (tag 1) 1, placed 160 (tag 1) 1]"
  let ?swap = "[placed 130 (tag 1) 1, placed 160 (tag 2) 2]"
  have r: "reachable blank_eeprom ?s" by (rule reachable_setup)
  have v: "card_arrives ?s ?i" "ghost_events ?s = 0"
    by (simp_all add: card_arrives_def polls_def sample_defs reader_defs loop_defs)
  have c: "\<forall>j \<in> set ?same. card j \<noteq> None" "\<forall>j \<in> set ?swap. card j \<noteq> None"
    by (simp_all add: placed_def quiet_def)
  have p: "cardCurrentlyPresent (loop ?s ?i)"
    by (rule loop_arrival [OF r v(1)])
  note first = new_card_events [of ?s ?i blank_eeprom ?same]
  note after = new_card_events [of "loop ?s ?i" ?i blank_eeprom ?swap]
  have one: "ghost_events (loop ?s ?i) = 1"
    using first r v by simp
  have run1: "ghost_events (run ?s (?i # ?same)) = 1"
    using first r v c(1) by simp
  have run2: "ghost_events (run (loop ?s ?i) ?swap) = 1"
    using after p c(2) one by simp
  show ?thesis
    using r v p one run1 run2 by simp
qed

subsection \<open>A card that cannot be read\<close>

lemma puzzleLoop_idle:
  assumes "currentIndex s < codeLength s" "cardCurrentlyPresent s" "card j \<noteq> None"
  shows "puzzleLoop s j = s \<or> puzzleLoop s j = s\<lparr>lastCardCheckTime := reader_millis j\<rparr>"
proof -
  obtain u where u: "card j = Some u" using assms(3) by auto
  show ?thesis
  proof (cases "reader_millis j - lastCardCheckTime s < 20")
    case True
    then have "handleReader s j = s" by (simp add: handleReader_def)
    then have "puzzleLoop s j = s" using assms(1) by (simp add: puzzleLoop_def Let_def)
    then show ?thesis by (rule disjI1)
  next
    case False
    then have "handleReader s j = s\<lparr>lastCardCheckTime := reader_millis j\<rparr>"
      using u assms(2) by (simp add: handleReader_def Let_def)
    then have "puzzleLoop s j = s\<lparr>lastCardCheckTime := reader_millis j\<rparr>"
      using assms(1) by (simp add: puzzleLoop_def Let_def)
    then show ?thesis by (rule disjI2)
  qed
qed

text \<open>
  Claim C9. In Puzzle mode, when \<^verbatim>\<open>handleReader\<close> handles a newly placed card and
  \<^verbatim>\<open>readCard\<close> fails, the pass adds to the trace the pauses of \<^verbatim>\<open>readCard\<close> (at most two
  of 10 ms) and then the failure presentation, and leaves mode, index, entered values,
  combination, EEPROM and selected value as they were. While a card stays on the reader no
  later pass reads it again, whatever the reader would answer. A poll that finds the
  reader empty re-arms the handler: the same card, placed again and read with success, is
  then stored at the index the failed attempt left.
\<close>

theorem failed_read_abandoned:
  assumes "wf_state s" and "currentMode s = PUZZLE"
    and "polls s i" and "card i = Some u" and "\<not> cardCurrentlyPresent s"
    and "\<not> compareUID (uidByte u) (uid_size u) (lastUID s) (lastUIDSize s)"
    and "\<not> fst (readCard (rfid i))"
  shows "currentMode (puzzleLoop s i) = PUZZLE \<and>
         currentIndex (puzzleLoop s i) = currentIndex s \<and>
         enteredValues (puzzleLoop s i) = enteredValues s \<and>
         correctCode (puzzleLoop s i) = correctCode s \<and>
         codeLength (puzzleLoop s i) = codeLength s \<and>
         eeprom (puzzleLoop s i) = eeprom s \<and>
         selectedValue (puzzleLoop s i) = selectedValue s \<and>
         out (puzzleLoop s i) =
           out s @ snd (snd (readCard (rfid i))) @
           [Tone 200 100, AnimateWriteFailure,
            ShowProgressBar (currentIndex s) (codeLength s)] \<and>
         (\<exists>n\<le>2. snd (snd (readCard (rfid i))) = replicate n (Delay 10)) \<and>
         cardCurrentlyPresent (puzzleLoop s i) \<and>
         (\<forall>j. card j \<noteq> None \<longrightarrow>
              puzzleLoop (puzzleLoop s i) j = puzzleLoop s i \<or>
              puzzleLoop (puzzleLoop s i) j
                = (puzzleLoop s i)\<lparr>lastCardCheckTime := reader_millis j\<rparr>) \<and>
         (\<forall>j k v es. polls (puzzleLoop s i) j \<and> card j = None \<and>
                  polls (puzzleLoop (puzzleLoop s i) j) k \<and> card k = Some u \<and>
                  readCard (rfid k) = (True, v, es) \<longrightarrow>
              enteredValues (handleReader (puzzleLoop (puzzleLoop s i) j) k)
                = (enteredValues s)[nat (currentIndex s) := uint v] \<and>
              currentIndex (handleReader (puzzleLoop (puzzleLoop s i) j) k)
                = currentIndex s + 1)"
proof -
  obtain val ds where rd: "readCard (rfid i) = (False, val, ds)"
    using assms(7) by (cases "readCard (rfid i)") auto
  have idx: "currentIndex s < codeLength s" "0 \<le> currentIndex s" "codeLength s \<le> 10"
    "lastUIDSize s = 0"
    using assms(1,5) by (simp_all add: wf_state_def wf_core_def MAX_CARDS_def)
  have size: "uid_size u \<noteq> 0"
    using assms(6) idx(4) by simp
  let ?p = "puzzleLoop s i"
  have hr: "handleReader s i =
      emit [Tone 200 100, AnimateWriteFailure, ShowProgressBar (currentIndex s) (codeLength s)]
       (emit ds
        (if uid_size u \<le> 10 then
           s\<lparr>lastCardCheckTime := reader_millis i, cardCurrentlyPresent := True,
             ghost_events := ghost_events s + 1,
             lastUID := take (unat (uid_size u)) (uidByte u) @ drop (unat (uid_size u)) (lastUID s),
             lastUIDSize := uid_size u\<rparr>
         else
           s\<lparr>lastCardCheckTime := reader_millis i, cardCurrentlyPresent := True,
             ghost_events := ghost_events s + 1\<rparr>))"
    using assms(2-6) rd
    by (simp add: handleReader_def onNewCard_def polls_def Let_def emit_def)
  have pl: "?p = handleReader s i"
    using idx(1) by (simp add: puzzleLoop_def Let_def hr emit_def)
  have fields: "currentMode ?p = PUZZLE" "currentIndex ?p = currentIndex s"
    "enteredValues ?p = enteredValues s" "correctCode ?p = correctCode s"
    "codeLength ?p = codeLength s" "eeprom ?p = eeprom s" "selectedValue ?p = selectedValue s"
    "out ?p = out s @ snd (snd (readCard (rfid i))) @
       [Tone 200 100, AnimateWriteFailure, ShowProgressBar (currentIndex s) (codeLength s)]"
    "cardCurrentlyPresent ?p"
    using assms(2) by (simp_all add: pl hr rd emit_def)
  have pauses: "\<exists>n\<le>2. snd (snd (readCard (rfid i))) = replicate n (Delay 10)"
    by (rule readCard_delays)
  have stay: "card j \<noteq> None \<longrightarrow>
      puzzleLoop ?p j = ?p \<or> puzzleLoop ?p j = ?p\<lparr>lastCardCheckTime := reader_millis j\<rparr>" for j
    using fields idx(1) by (intro impI puzzleLoop_idle) simp_all
  have again: "enteredValues (handleReader (puzzleLoop ?p j) k)
                = (enteredValues s)[nat (currentIndex s) := uint v] \<and>
              currentIndex (handleReader (puzzleLoop ?p j) k) = currentIndex s + 1"
    if jk: "polls ?p j \<and> card j = None \<and> polls (puzzleLoop ?p j) k \<and> card k = Some u \<and>
      readCard (rfid k) = (True, v, es)" for j k v es
  proof -
    let ?q = "puzzleLoop ?p j"
    have q: "?q = ?p\<lparr>lastCardCheckTime := reader_millis j, cardCurrentlyPresent := False,
                       lastUIDSize := 0\<rparr>"
      using jk fields idx(1)
      by (simp add: puzzleLoop_def handleReader_def polls_def Let_def)
    have qf: "currentMode ?q = PUZZLE" "currentIndex ?q = currentIndex s"
      "enteredValues ?q = enteredValues s" "\<not> cardCurrentlyPresent ?q" "lastUIDSize ?q = 0"
      using fields by (simp_all add: q)
    show ?thesis
      using jk qf size idx
      by (simp add: handleReader_def onNewCard_def polls_def Let_def emit_def
          store_entered_def in_bounds_def MAX_CARDS_def)
  qed
  show ?thesis
    by (intro conjI allI impI) (rule fields pauses stay [rule_format] again [THEN conjunct1]
        again [THEN conjunct2] | assumption)+
qed

text \<open>
  Two values entered; a card whose authentication times out on all three attempts is
  placed: two pauses, then the failure presentation. The index stays 2 while the card lies
  there, even when it would now read 3; taken off and placed again, it is read and the
  index becomes 3.
\<close>

theorem failed_read_abandoned_witness:
  "wf_state (entered_so_far [1, 2, 0, 0, 0, 0, 0, 0, 0, 0] 2) \<and>
   currentMode (entered_so_far [1, 2, 0, 0, 0, 0, 0, 0, 0, 0] 2) = PUZZLE \<and>
   polls (entered_so_far [1, 2, 0, 0, 0, 0, 0, 0, 0, 0] 2) (unreadable 100 (tag 1)) \<and>
   readCard (rfid (unreadable 100 (tag 1))) = (False, 0xFF, [Delay 10, Delay 10]) \<and>
   currentIndex (puzzleLoop (entered_so_far [1, 2, 0, 0, 0, 0, 0, 0, 0, 0] 2)
                   (unreadable 100 (tag 1))) = 2 \<and>
   enteredValues (puzzleLoop (entered_so_far [1, 2, 0, 0, 0, 0, 0, 0, 0, 0] 2)
                    (unreadable 100 (tag 1))) = [1, 2, 0, 0, 0, 0, 0, 0, 0, 0] \<and>
   out (puzzleLoop (entered_so_far [1, 2, 0, 0, 0, 0, 0, 0, 0, 0] 2) (unreadable 100 (tag 1)))
     = [Delay 10, Delay 10, Tone 200 100, AnimateWriteFailure, ShowProgressBar 2 4] \<and>
   currentIndex
     (puzzleLoop (puzzleLoop (entered_so_far [1, 2, 0, 0, 0, 0, 0, 0, 0, 0] 2)
                    (unreadable 100 (tag 1)))
        (placed 130 (tag 1) 3)) = 2 \<and>
   currentIndex
     (handleReader
        (puzzleLoop (puzzleLoop (entered_so_far [1, 2, 0, 0, 0, 0, 0, 0, 0, 0] 2)
                       (unreadable 100 (tag 1)))
           (quiet 130))
        (placed 160 (tag 1) 3)) = 3"
proof -
  let ?s = "entered_so_far [1, 2, 0, 0, 0, 0, 0, 0, 0, 0] 2"
  let ?i = "unreadable 100 (tag 1)"
  let ?p = "puzzleLoop ?s ?i"
  have wf: "wf_state ?s"
    by (simp add: wf_state_def wf_core_def sample_defs MAX_CARDS_def)
  have rd: "readCard (rfid ?i) = (False, 0xFF, [Delay 10, Delay 10])"
    by (simp add: sample_defs reader_defs)
  have h: "currentMode ?s = PUZZLE" "polls ?s ?i" "card ?i = Some (tag 1)"
    "\<not> cardCurrentlyPresent ?s"
    "\<not> compareUID (uidByte (tag 1)) (uid_size (tag 1)) (lastUID ?s) (lastUIDSize ?s)"
    "\<not> fst (readCard (rfid ?i))"
    by (simp_all add: rd) (simp_all add: polls_def sample_defs reader_defs)
  have v: "currentIndex ?s = 2" "codeLength ?s = 4" "out ?s = []"
    "enteredValues ?s = [1, 2, 0, 0, 0, 0, 0, 0, 0, 0]"
    by (simp_all add: sample_defs)
  note th = failed_read_abandoned [OF wf h]
  have stay: "\<forall>j. card j \<noteq> None \<longrightarrow>
      puzzleLoop ?p j = ?p \<or> puzzleLoop ?p j = ?p\<lparr>lastCardCheckTime := reader_millis j\<rparr>"
    using th by (elim conjE) assumption
  have again: "\<forall>j k v es. polls ?p j \<and> card j = None \<and> polls (puzzleLoop ?p j) k \<and>
      card k = Some (tag 1) \<and> readCard (rfid k) = (True, v, es) \<longrightarrow>
        enteredValues (handleReader (puzzleLoop ?p j) k)
          = (enteredValues ?s)[nat (currentIndex ?s) := uint v] \<and>
        currentIndex (handleReader (puzzleLoop ?p j) k) = currentIndex ?s + 1"
    using th by (elim conjE) assumption
  have idx: "currentIndex ?p = 2" using th v by simp
  have trace: "out ?p = [Delay 10, Delay 10, Tone 200 100, AnimateWriteFailure, ShowProgressBar 2 4]"
    using th v rd by simp
  have "card (placed 130 (tag 1) 3) \<noteq> None" by (simp add: placed_def quiet_def)
  then have "puzzleLoop ?p (placed 130 (tag 1) 3) = ?p \<or>
      puzzleLoop ?p (placed 130 (tag 1) 3)
        = ?p\<lparr>lastCardCheckTime := reader_millis (placed 130 (tag 1) 3)\<rparr>"
    using stay by blast
  then have held: "currentIndex (puzzleLoop ?p (placed 130 (tag 1) 3)) = 2"
    using idx by (elim disjE) simp_all
  have t: "lastCardCheckTime ?p = 100"
    by (simp add: puzzleLoop_def sample_defs reader_defs)
  have p1: "polls ?p (quiet 130)" "card (quiet 130) = None"
    by (simp_all add: polls_def t) (simp_all add: quiet_def)
  have t2: "lastCardCheckTime (puzzleLoop ?p (quiet 130)) = 130"
    by (simp add: puzzleLoop_def sample_defs reader_defs)
  have p2: "polls (puzzleLoop ?p (quiet 130)) (placed 160 (tag 1) 3)"
    "card (placed 160 (tag 1) 3) = Some (tag 1)"
    "readCard (rfid (placed 160 (tag 1) 3)) = (True, 3, [])"
    by (simp_all add: polls_def t2) (simp_all add: sample_defs reader_defs)
  have retry: "currentIndex (handleReader (puzzleLoop ?p (quiet 130)) (placed 160 (tag 1) 3)) = 3"
    using again [rule_format, of "quiet 130" "placed 160 (tag 1) 3" 3 "[]"] p1 p2 v by simp
  show ?thesis
    using th wf h v rd trace held retry by simp
qed

end
